theory Spec2Isabelle
  imports Complex_Main "HOL-Library.Word"
begin

section \<open>Python values\<close>

text \<open>
  A Python \<open>str\<close> is a sequence of Unicode code points; a literal of the source is written
  \<open>str ''...''\<close>. \<open>None\<close> is \<open>None\<close> of an option type. What the source takes from the Python
  library and from Unicode tables (\<open>str.lower\<close>, \<open>re.search\<close> with \<open>re.IGNORECASE\<close>, where
  \<open>None\<close> stands for \<open>re.error\<close>) is a parameter of the model.
\<close>

type_synonym pystr = "nat list"

abbreviation (input) str :: "string \<Rightarrow> pystr" where
  "str s \<equiv> map of_char s"

type_synonym uuid = nat

text \<open>Instants (\<open>datetime\<close>) in microseconds.\<close>

type_synonym datetime = int

record pyenv =
  str_lower :: "pystr \<Rightarrow> pystr"
  re_search_ignorecase :: "pystr \<Rightarrow> pystr \<Rightarrow> bool option"

text \<open>\<open>value.startswith(p)\<close>, \<open>value.endswith(p)\<close> and \<open>p in value\<close> on strings.\<close>

fun startswith :: "pystr \<Rightarrow> pystr \<Rightarrow> bool" where
  "startswith v [] = True"
| "startswith [] (p # ps) = False"
| "startswith (c # v) (p # ps) = (c = p \<and> startswith v ps)"

definition endswith :: "pystr \<Rightarrow> pystr \<Rightarrow> bool" where
  "endswith v p = startswith (rev v) (rev p)"

fun str_in :: "pystr \<Rightarrow> pystr \<Rightarrow> bool" where
  "str_in p [] = (p = [])"
| "str_in p (c # v) = (startswith (c # v) p \<or> str_in p v)"

section \<open>Data model\<close>

text \<open>\<open>app/models/exclusion_rule.py\<close> (the audit columns are read by no function here).\<close>

record exclusion_rule =
  rule_id :: uuid
  rule_organization_id :: uuid
  rule_type :: pystr
  pattern :: pystr
  match_type :: pystr
  enabled :: bool
  reason :: "pystr option"

text \<open>\<open>app/models/transaction.py\<close>.\<close>

record transaction =
  tx_id :: uuid
  organization_id :: uuid
  client_id :: uuid
  xero_transaction_id :: pystr
  xero_type :: "pystr option"
  date :: "pystr option"
  amount :: "rat option"
  description :: "pystr option"
  supplier_name :: "pystr option"
  document_required :: bool
  document_received :: bool
  document_uploaded_at :: "datetime option"
  excluded :: bool
  exclusion_reason :: "pystr option"
  created_at :: datetime
  updated_at :: datetime

section \<open>Exclusion rules\<close>

text \<open>\<open>ExclusionRule.is_active\<close> and \<open>ExclusionRule.matches\<close>.\<close>

definition is_active :: "exclusion_rule \<Rightarrow> bool" where
  "is_active rule = enabled rule"

definition matches :: "pyenv \<Rightarrow> exclusion_rule \<Rightarrow> pystr option \<Rightarrow> bool" where
  "matches py rule val =
     (case val of
        None \<Rightarrow> False
      | Some v \<Rightarrow>
          if v = [] \<or> \<not> enabled rule then False
          else
            let value_lower = str_lower py v;
                pattern_lower = str_lower py (pattern rule)
            in if match_type rule = str ''contains'' then str_in pattern_lower value_lower
               else if match_type rule = str ''equals'' then value_lower = pattern_lower
               else if match_type rule = str ''starts_with'' then startswith value_lower pattern_lower
               else if match_type rule = str ''ends_with'' then endswith value_lower pattern_lower
               else if match_type rule = str ''regex'' then
                 (case re_search_ignorecase py (pattern rule) v of
                    None \<Rightarrow> False
                  | Some found \<Rightarrow> found)
               else False)"

text \<open>
  \<open>apply_exclusion_rules\<close> of \<open>app/services/exclusion/engine.py\<close>: the transaction it
  mutates is returned with the result.
\<close>

definition exclude_by :: "exclusion_rule \<Rightarrow> transaction \<Rightarrow> transaction" where
  "exclude_by rule t =
     t\<lparr>excluded := True,
       document_required := False,
       exclusion_reason :=
         Some (case reason rule of
                 None \<Rightarrow> str ''Auto-excluded''
               | Some r \<Rightarrow> if r = [] then str ''Auto-excluded'' else r)\<rparr>"

fun apply_exclusion_rules ::
  "pyenv \<Rightarrow> transaction \<Rightarrow> exclusion_rule list \<Rightarrow> transaction \<times> bool" where
  "apply_exclusion_rules py t [] = (t, False)"
| "apply_exclusion_rules py t (rule # rules) =
     (if \<not> is_active rule then apply_exclusion_rules py t rules
      else if rule_type rule = str ''supplier_name'' then
        (if matches py rule (supplier_name t) then (exclude_by rule t, True)
         else apply_exclusion_rules py t rules)
      else if rule_type rule = str ''description'' then
        (if matches py rule (description t) then (exclude_by rule t, True)
         else apply_exclusion_rules py t rules)
      else apply_exclusion_rules py t rules)"

text \<open>
  A rule "would match" a transaction when the loop body of \<open>apply_exclusion_rules\<close>,
  run on that rule alone, reaches the assignment of \<open>excluded\<close>.
\<close>

definition rule_hits :: "pyenv \<Rightarrow> transaction \<Rightarrow> exclusion_rule \<Rightarrow> bool" where
  "rule_hits py t rule = snd (apply_exclusion_rules py t [rule])"

text \<open>
  The same in terms of \<open>ExclusionRule.matches\<close>: the rule is enabled, its \<open>rule_type\<close> names
  the supplier name or the description, and \<open>matches\<close> accepts that field of the transaction.
\<close>

definition would_match :: "pyenv \<Rightarrow> transaction \<Rightarrow> exclusion_rule \<Rightarrow> bool" where
  "would_match py t rule \<longleftrightarrow>
     enabled rule \<and>
     (rule_type rule = str ''supplier_name'' \<and> matches py rule (supplier_name t)
      \<or> rule_type rule = str ''description'' \<and> matches py rule (description t))"

section \<open>Transaction sync\<close>

text \<open>
  A record of the provider (a \<open>dict\<close> of the \<open>BankTransactions\<close> array). \<open>tx.get(k)\<close> is
  \<open>None\<close> for a key that is absent or \<open>null\<close>; \<open>HasAttachments\<close> is a boolean when present, and
  \<open>None\<close> here when the key is absent. Of \<open>Contact\<close> only \<open>Name\<close> is read.
\<close>

record contact =
  Name :: "pystr option"

record xero_record =
  BankTransactionID :: "pystr option"
  HasAttachments :: "bool option"
  Type :: "pystr option"
  Date :: "pystr option"
  Total :: "rat option"
  Reference :: "pystr option"
  LineAmountTypes :: "pystr option"
  Contact :: "contact option"

datatype error =
    IntegrityError
  | Exception pystr
  | UnicodeEncodeError
  | UnicodeDecodeError
  | InvalidToken
  | KeyError pystr
  | TypeError
  | AttributeError
  | JSONDecodeError
  | ConnectError

text \<open>Python's \<open>a or b\<close> on optional strings: \<open>None\<close> and the empty string are falsy.\<close>

definition str_or :: "pystr option \<Rightarrow> pystr option \<Rightarrow> pystr option" where
  "str_or a b = (case a of None \<Rightarrow> b | Some v \<Rightarrow> if v = [] then b else a)"

text \<open>\<open>(tx.get("Contact") or {}).get("Name")\<close>.\<close>

definition contact_name :: "xero_record \<Rightarrow> pystr option" where
  "contact_name tx = (case Contact tx of None \<Rightarrow> None | Some c \<Rightarrow> Name c)"

text \<open>
  The session of \<open>app/database.py\<close> is made with \<open>autoflush=False\<close>: a query reads the rows
  of the table (as objects of the session, with the changes made to them so far) and does not
  see the objects that \<open>db.add\<close> holds until the commit. \<open>.first()\<close> gives the position of
  the first row that satisfies the filter.
\<close>

record session =
  rows :: "transaction list"
  added :: "transaction list"

fun query_first :: "('a \<Rightarrow> bool) \<Rightarrow> 'a list \<Rightarrow> nat option" where
  "query_first P [] = None"
| "query_first P (x # xs) = (if P x then Some 0 else map_option Suc (query_first P xs))"

text \<open>\<open>tx.get("HasAttachments", False)\<close>.\<close>

definition has_attachments :: "xero_record \<Rightarrow> bool" where
  "has_attachments tx = (case HasAttachments tx of None \<Rightarrow> False | Some b \<Rightarrow> b)"

text \<open>The two branches of the loop body of \<open>upsert_xero_transactions\<close>.\<close>

definition insert_new ::
  "pyenv \<Rightarrow> exclusion_rule list \<Rightarrow> uuid \<Rightarrow> uuid \<Rightarrow> datetime \<Rightarrow> uuid \<Rightarrow>
   pystr \<Rightarrow> bool \<Rightarrow> xero_record \<Rightarrow> transaction" where
  "insert_new py rules org client now new_id xero_tx_id has_att tx =
     fst (apply_exclusion_rules py
       \<lparr>tx_id = new_id,
        organization_id = org,
        client_id = client,
        xero_transaction_id = xero_tx_id,
        xero_type = Type tx,
        date = Date tx,
        amount = Total tx,
        description = str_or (Reference tx) (LineAmountTypes tx),
        supplier_name = contact_name tx,
        document_required = (\<not> has_att),
        document_received = has_att,
        document_uploaded_at = None,
        excluded = False,
        exclusion_reason = None,
        created_at = now,
        updated_at = now\<rparr> rules)"

definition update_existing ::
  "pyenv \<Rightarrow> exclusion_rule list \<Rightarrow> datetime \<Rightarrow> bool \<Rightarrow> xero_record \<Rightarrow>
   transaction \<Rightarrow> transaction" where
  "update_existing py rules now has_att tx existing =
     fst (apply_exclusion_rules py
       (existing
         \<lparr>xero_type := Type tx,
          date := Date tx,
          amount := Total tx,
          description := str_or (Reference tx) (description existing),
          supplier_name := contact_name tx,
          document_required := (\<not> has_att),
          document_received := (if has_att then True else document_received existing),
          updated_at := now\<rparr>) rules)"

definition upsert_record ::
  "pyenv \<Rightarrow> exclusion_rule list \<Rightarrow> uuid \<Rightarrow> uuid \<Rightarrow> datetime \<Rightarrow> uuid \<Rightarrow>
   session \<Rightarrow> xero_record \<Rightarrow> session" where
  "upsert_record py rules org client now new_id s tx =
     (case BankTransactionID tx of
        None \<Rightarrow> s
      | Some xero_tx_id \<Rightarrow>
          if xero_tx_id = [] then s
          else
            let has_att = has_attachments tx
            in case query_first
                      (\<lambda>r. organization_id r = org \<and> xero_transaction_id r = xero_tx_id)
                      (rows s) of
                 None \<Rightarrow>
                   s\<lparr>added := added s @
                      [insert_new py rules org client now new_id xero_tx_id has_att tx]\<rparr>
               | Some i \<Rightarrow>
                   s\<lparr>rows := list_update (rows s) i
                      (update_existing py rules now has_att tx (rows s ! i))\<rparr>)"

text \<open>The loop; \<open>uuid4 k\<close> is the identifier drawn for the record at position \<open>k\<close>.\<close>

fun upsert_loop ::
  "pyenv \<Rightarrow> exclusion_rule list \<Rightarrow> uuid \<Rightarrow> uuid \<Rightarrow> datetime \<Rightarrow> (nat \<Rightarrow> uuid) \<Rightarrow>
   nat \<Rightarrow> session \<Rightarrow> xero_record list \<Rightarrow> session" where
  "upsert_loop py rules org client now uuid4 k s [] = s"
| "upsert_loop py rules org client now uuid4 k s (tx # txs) =
     upsert_loop py rules org client now uuid4 (Suc k)
       (upsert_record py rules org client now (uuid4 k) s tx) txs"

text \<open>
  \<open>db.commit()\<close> writes the session or nothing: the table refuses two rows with one
  \<open>xero_transaction_id\<close> (\<open>unique=True\<close>) and a row without \<open>date\<close> or \<open>amount\<close>
  (\<open>nullable=False\<close>).
\<close>

definition commit :: "session \<Rightarrow> error + transaction list" where
  "commit s =
     (let table = rows s @ added s
      in if distinct (map xero_transaction_id table)
            \<and> list_all (\<lambda>r. date r \<noteq> None \<and> amount r \<noteq> None) table
         then Inr table else Inl IntegrityError)"

text \<open>\<open>app/models/xero_connection.py\<close>.\<close>

record xero_connection =
  conn_id :: uuid
  conn_organization_id :: uuid
  xero_tenant_id :: pystr
  xero_tenant_name :: "pystr option"
  access_token_encrypted :: pystr
  refresh_token_encrypted :: pystr
  expires_at :: datetime
  last_sync_at :: "datetime option"
  sync_status :: pystr
  connected_by :: "uuid option"
  conn_created_at :: datetime
  conn_updated_at :: datetime

record database =
  transactions :: "transaction list"
  exclusion_rules :: "exclusion_rule list"
  xero_connections :: "xero_connection list"

definition upsert_xero_transactions ::
  "pyenv \<Rightarrow> datetime \<Rightarrow> (nat \<Rightarrow> uuid) \<Rightarrow> database \<Rightarrow> uuid \<Rightarrow> uuid \<Rightarrow>
   xero_record list \<Rightarrow> error + database" where
  "upsert_xero_transactions py now uuid4 db org client xero_transactions =
     (let rules = filter (\<lambda>r. rule_organization_id r = org \<and> enabled r) (exclusion_rules db);
          s = upsert_loop py rules org client now uuid4 0
                \<lparr>rows = transactions db, added = []\<rparr> xero_transactions
      in case commit s of
           Inl e \<Rightarrow> Inl e
         | Inr table \<Rightarrow> Inr (db\<lparr>transactions := table\<rparr>))"

text \<open>
  The provider transaction ids that a record list names: the records without an id (or with
  an empty one) are skipped by the loop.
\<close>

fun batch_ids :: "xero_record list \<Rightarrow> pystr list" where
  "batch_ids [] = []"
| "batch_ids (tx # txs) =
     (case BankTransactionID tx of
        None \<Rightarrow> batch_ids txs
      | Some x \<Rightarrow> if x = [] then batch_ids txs else x # batch_ids txs)"

text \<open>
  A record names the row at position \<open>j\<close> of a table when its id is one that the loop does
  not skip and the query of the loop finds that row.
\<close>

definition names_row :: "uuid \<Rightarrow> transaction list \<Rightarrow> xero_record \<Rightarrow> nat \<Rightarrow> bool" where
  "names_row org table tx j =
     (case BankTransactionID tx of
        None \<Rightarrow> False
      | Some x \<Rightarrow>
          x \<noteq> [] \<and>
          query_first (\<lambda>r. organization_id r = org \<and> xero_transaction_id r = x) table = Some j)"

text \<open>The key of a row and its business fields (all but \<open>tx_id\<close>, \<open>client_id\<close> and the timestamps).\<close>

definition business_fields ::
  "transaction \<Rightarrow>
   (uuid \<times> pystr) \<times> pystr option \<times> pystr option \<times> rat option \<times> pystr option \<times> pystr option \<times>
   bool \<times> bool \<times> bool \<times> pystr option" where
  "business_fields t =
     ((organization_id t, xero_transaction_id t), xero_type t, date t, amount t, description t,
      supplier_name t, document_required t, document_received t, excluded t, exclusion_reason t)"

text \<open>
  A table is settled for a record when the row that the record's id selects is a fixed point
  of the update branch, in its business fields.
\<close>

definition settled ::
  "pyenv \<Rightarrow> exclusion_rule list \<Rightarrow> uuid \<Rightarrow> transaction list \<Rightarrow> xero_record \<Rightarrow> bool" where
  "settled py rules org table tx =
     (case BankTransactionID tx of
        None \<Rightarrow> True
      | Some x \<Rightarrow>
          x = [] \<or>
          (\<exists>i. query_first (\<lambda>r. organization_id r = org \<and> xero_transaction_id r = x) table = Some i
             \<and> (\<forall>now r. business_fields r = business_fields (table ! i) \<longrightarrow>
                    business_fields (update_existing py rules now (has_attachments tx) tx r) =
                    business_fields (table ! i))))"


section \<open>Token cipher\<close>

text \<open>
  \<open>bytes\<close> are lists of 8-bit words. \<open>str.encode()\<close> and \<open>bytes.decode()\<close> are UTF-8, strict:
  a surrogate code point cannot be encoded (\<open>UnicodeEncodeError\<close>), and a byte sequence
  that is not the shortest encoding of a code point other than a surrogate cannot be decoded
  (\<open>UnicodeDecodeError\<close>). A code point of a \<open>str\<close> is below \<open>0x110000\<close>.
\<close>

type_synonym pybytes = "8 word list"

definition utf8_encode_char :: "nat \<Rightarrow> nat list option" where
  "utf8_encode_char c =
     (if c < 0x80 then Some [c]
      else if c < 0x800 then Some [0xC0 + c div 64, 0x80 + c mod 64]
      else if c < 0x10000 then
        (if 0xD800 \<le> c \<and> c < 0xE000 then None
         else Some [0xE0 + c div 4096, 0x80 + c div 64 mod 64, 0x80 + c mod 64])
      else if c < 0x110000 then
        Some [0xF0 + c div 262144, 0x80 + c div 4096 mod 64, 0x80 + c div 64 mod 64,
              0x80 + c mod 64]
      else None)"

fun utf8_encode :: "pystr \<Rightarrow> nat list option" where
  "utf8_encode [] = Some []"
| "utf8_encode (c # cs) =
     (case utf8_encode_char c of
        None \<Rightarrow> None
      | Some bs \<Rightarrow> map_option ((@) bs) (utf8_encode cs))"

definition continuation :: "nat \<Rightarrow> bool" where
  "continuation b = (0x80 \<le> b \<and> b < 0xC0)"

text \<open>The first code point of a byte sequence, and the bytes after it.\<close>

definition utf8_decode_first :: "nat list \<Rightarrow> (nat \<times> nat list) option" where
  "utf8_decode_first bs =
     (case bs of
        [] \<Rightarrow> None
      | b0 # bs1 \<Rightarrow>
          if b0 < 0x80 then Some (b0, bs1)
          else if 0xC2 \<le> b0 \<and> b0 < 0xE0 then
            (case bs1 of
               b1 # r \<Rightarrow>
                 if continuation b1 then Some ((b0 - 0xC0) * 64 + (b1 - 0x80), r) else None
             | _ \<Rightarrow> None)
          else if 0xE0 \<le> b0 \<and> b0 < 0xF0 then
            (case bs1 of
               b1 # b2 # r \<Rightarrow>
                 let c = (b0 - 0xE0) * 4096 + (b1 - 0x80) * 64 + (b2 - 0x80)
                 in if continuation b1 \<and> continuation b2 \<and> 0x800 \<le> c
                       \<and> \<not> (0xD800 \<le> c \<and> c < 0xE000)
                    then Some (c, r) else None
             | _ \<Rightarrow> None)
          else if 0xF0 \<le> b0 \<and> b0 < 0xF5 then
            (case bs1 of
               b1 # b2 # b3 # r \<Rightarrow>
                 let c = (b0 - 0xF0) * 262144 + (b1 - 0x80) * 4096 + (b2 - 0x80) * 64
                         + (b3 - 0x80)
                 in if continuation b1 \<and> continuation b2 \<and> continuation b3
                       \<and> 0x10000 \<le> c \<and> c < 0x110000
                    then Some (c, r) else None
             | _ \<Rightarrow> None)
          else None)"

function utf8_decode :: "nat list \<Rightarrow> pystr option" where
  "utf8_decode bs =
     (if bs = [] then Some []
      else case utf8_decode_first bs of
             None \<Rightarrow> None
           | Some (c, r) \<Rightarrow> map_option ((#) c) (utf8_decode r))"
  by pat_completeness auto
termination
  by (relation "measure length")
    (auto simp: utf8_decode_first_def Let_def split: list.splits if_splits)

declare utf8_decode.simps [simp del]

definition str_encode :: "pystr \<Rightarrow> error + pybytes" where
  "str_encode s =
     (case utf8_encode s of
        None \<Rightarrow> Inl UnicodeEncodeError
      | Some bs \<Rightarrow> Inr (map of_nat bs))"

definition bytes_decode :: "pybytes \<Rightarrow> error + pystr" where
  "bytes_decode bs =
     (case utf8_decode (map unat bs) of
        None \<Rightarrow> Inl UnicodeDecodeError
      | Some s \<Rightarrow> Inr s)"

text \<open>
  The \<open>Fernet\<close> instance that \<open>_get_fernet()\<close> builds from the configured secret is a
  parameter: \<open>encrypt\<close> draws the time and an initialisation vector, \<open>decrypt\<close> gives \<open>None\<close>
  where the library raises \<open>InvalidToken\<close>.
\<close>

record fernet_entropy =
  current_time :: int
  iv :: pybytes

record fernet =
  fernet_encrypt :: "fernet_entropy \<Rightarrow> pybytes \<Rightarrow> pybytes"
  fernet_decrypt :: "pybytes \<Rightarrow> pybytes option"

text \<open>\<open>encrypt_token\<close> and \<open>decrypt_token\<close> of \<open>app/services/xero/token_crypto.py\<close>.\<close>

definition encrypt_token :: "fernet \<Rightarrow> fernet_entropy \<Rightarrow> pystr \<Rightarrow> error + pystr" where
  "encrypt_token f e token =
     (case str_encode token of
        Inl err \<Rightarrow> Inl err
      | Inr data \<Rightarrow> bytes_decode (fernet_encrypt f e data))"

definition decrypt_token :: "fernet \<Rightarrow> pystr \<Rightarrow> error + pystr" where
  "decrypt_token f encrypted_token =
     (case str_encode encrypted_token of
        Inl err \<Rightarrow> Inl err
      | Inr data \<Rightarrow>
          (case fernet_decrypt f data of
             None \<Rightarrow> Inl InvalidToken
           | Some plain \<Rightarrow> bytes_decode plain))"

text \<open>
  What the library promises of the instance: \<open>decrypt\<close> inverts \<open>encrypt\<close>, and a token is
  URL-safe base64 text, so ASCII.
\<close>

definition fernet_sound :: "fernet \<Rightarrow> bool" where
  "fernet_sound f \<longleftrightarrow>
     (\<forall>e data. fernet_decrypt f (fernet_encrypt f e data) = Some data) \<and>
     (\<forall>e data. \<forall>b\<in>set (fernet_encrypt f e data). b < 0x80)"

text \<open>The strings that \<open>str.encode()\<close> accepts.\<close>

definition encodable :: "pystr \<Rightarrow> bool" where
  "encodable s = list_all (\<lambda>c. c < 0x110000 \<and> \<not> (0xD800 \<le> c \<and> c < 0xE000)) s"

text \<open>
  An instance of the parameter on which \<open>fernet_sound\<close> holds (two letters for a byte, after
  the initialisation vector written the same way), for evaluation. It is not \<open>Fernet\<close>.
\<close>

fun letters :: "pybytes \<Rightarrow> pybytes" where
  "letters [] = []"
| "letters (b # bs) =
     of_nat (97 + unat b div 16) # of_nat (97 + unat b mod 16) # letters bs"

fun unletters :: "pybytes \<Rightarrow> pybytes option" where
  "unletters [] = Some []"
| "unletters [x] = None"
| "unletters (x # y # bs) =
     (if 97 \<le> unat x \<and> unat x < 113 \<and> 97 \<le> unat y \<and> unat y < 113
      then map_option ((#) (of_nat ((unat x - 97) * 16 + (unat y - 97)))) (unletters bs)
      else None)"

definition demo_fernet :: fernet where
  "demo_fernet =
     \<lparr>fernet_encrypt = (\<lambda>e data. letters (take 1 (iv e @ [0]) @ data)),
      fernet_decrypt = (\<lambda>token. map_option (drop 1) (unletters token))\<rparr>"


section \<open>Token manager\<close>

text \<open>
  The answer of the provider's token endpoint: the status and the body as \<open>resp.json()\<close>
  reads it (\<open>None\<close> when the body is not JSON; a JSON body is an object).
\<close>

datatype json = JString pystr | JNumber int | JNull








text \<open>
  \<open>get_valid_access_token\<close> of \<open>app/services/xero/token_manager.py\<close> is a coroutine with one
  \<open>await\<close>, the request to the provider. \<open>begin_refresh\<close> is the part before it: it returns
  the stored access token, or the request to send together with the place of the connection.
  The source raises \<open>Exception\<close> with a message; \<open>NotConnected\<close> and \<open>RefreshFailed\<close> name its
  two exceptions.
\<close>

definition NotConnected :: error where
  "NotConnected = Exception (str ''No Xero connection found'')"








section \<open>Concrete data\<close>

text \<open>
  An instance of the Python parameters (lower case on ASCII letters, every pattern refused by
  \<open>re\<close>), and rows, rules and records on which the definitions are evaluated.
\<close>

definition demo_py :: pyenv where
  "demo_py = \<lparr>str_lower = map (\<lambda>c. if 65 \<le> c \<and> c \<le> 90 then c + 32 else c),
              re_search_ignorecase = (\<lambda>p v. None)\<rparr>"

definition demo_row :: transaction where
  "demo_row =
     \<lparr>tx_id = 10, organization_id = 1, client_id = 7,
      xero_transaction_id = str ''A'', xero_type = Some (str ''SPEND''),
      date = Some (str ''2024-01-05''), amount = Some 120,
      description = Some (str ''aws''), supplier_name = Some (str ''Initech''),
      document_required = False, document_received = True, document_uploaded_at = None,
      excluded = True, exclusion_reason = Some (str ''Manual''),
      created_at = 500, updated_at = 500\<rparr>"

definition demo_record :: xero_record where
  "demo_record =
     \<lparr>BankTransactionID = Some (str ''A''), HasAttachments = None,
      Type = Some (str ''SPEND''), Date = Some (str ''2024-01-05''), Total = Some 120,
      Reference = None, LineAmountTypes = Some (str ''Exclusive''),
      Contact = Some \<lparr>Name = Some (str ''Initech'')\<rparr>\<rparr>"

definition demo_db :: database where
  "demo_db = \<lparr>transactions = [demo_row], exclusion_rules = [], xero_connections = []\<rparr>"

definition rule_aws :: exclusion_rule where
  "rule_aws =
     \<lparr>rule_id = 1, rule_organization_id = 1, rule_type = str ''description'',
      pattern = str ''AWS'', match_type = str ''contains'', enabled = True,
      reason = Some (str ''Cloud infra'')\<rparr>"

definition rule_acme :: exclusion_rule where
  "rule_acme =
     \<lparr>rule_id = 2, rule_organization_id = 1, rule_type = str ''supplier_name'',
      pattern = str ''acme'', match_type = str ''starts_with'', enabled = True,
      reason = None\<rparr>"

definition open_row :: transaction where
  "open_row = demo_row\<lparr>document_required := True, document_received := False,
     excluded := False, exclusion_reason := None\<rparr>"

definition rules_db :: database where
  "rules_db = \<lparr>transactions = [open_row], exclusion_rules = [rule_aws, rule_acme],
     xero_connections = []\<rparr>"

definition record_acme :: xero_record where
  "record_acme = demo_record\<lparr>Contact := Some \<lparr>Name = Some (str ''Acme Ltd'')\<rparr>\<rparr>"

definition record_other :: xero_record where
  "record_other = demo_record\<lparr>Reference := Some (str ''zzz'')\<rparr>"

definition after_first :: transaction where
  "after_first = open_row\<lparr>description := Some (str ''zzz''), excluded := True,
     exclusion_reason := Some (str ''Cloud infra''), updated_at := 1000\<rparr>"

definition after_second :: transaction where
  "after_second = after_first\<lparr>exclusion_reason := Some (str ''Auto-excluded''),
     updated_at := 2000\<rparr>"

definition rule_off :: exclusion_rule where
  "rule_off = rule_aws\<lparr>rule_id := 3, pattern := str ''a'', enabled := False,
     reason := Some (str ''Disabled'')\<rparr>"

definition rule_initech :: exclusion_rule where
  "rule_initech =
     \<lparr>rule_id = 4, rule_organization_id = 1, rule_type = str ''supplier_name'',
      pattern = str ''TECH'', match_type = str ''ends_with'', enabled = True,
      reason = Some (str ''Internal'')\<rparr>"

definition record_new :: xero_record where
  "record_new = demo_record\<lparr>BankTransactionID := Some (str ''B''), Reference := Some []\<rparr>"

definition synced_row :: transaction where
  "synced_row = open_row\<lparr>supplier_name := Some (str ''Acme Ltd''), document_required := False,
     excluded := True, exclusion_reason := Some (str ''Cloud infra''), updated_at := 1000\<rparr>"

definition new_row :: transaction where
  "new_row =
     \<lparr>tx_id = 2, organization_id = 1, client_id = 7,
      xero_transaction_id = str ''B'', xero_type = Some (str ''SPEND''),
      date = Some (str ''2024-01-05''), amount = Some 120,
      description = Some (str ''Exclusive''), supplier_name = Some (str ''Initech''),
      document_required = True, document_received = False, document_uploaded_at = None,
      excluded = False, exclusion_reason = None,
      created_at = 1000, updated_at = 1000\<rparr>"













section \<open>The exclusion engine stops at the first rule that matches\<close>

lemma rule_hits_iff: "rule_hits py t r \<longleftrightarrow> would_match py t r"
  by (auto simp: rule_hits_def would_match_def is_active_def)

lemma apply_exclusion_rules_skip:
  "\<forall>r\<in>set pre. \<not> rule_hits py t r \<Longrightarrow>
   apply_exclusion_rules py t (pre @ rest) = apply_exclusion_rules py t rest"
  by (induction pre) (auto simp: rule_hits_def split: if_splits)

lemma apply_exclusion_rules_hit:
  "rule_hits py t r \<Longrightarrow> apply_exclusion_rules py t (r # rest) = (exclude_by r t, True)"
  by (auto simp: rule_hits_def split: if_splits)

lemma exclude_by_eq:
  "exclude_by r t =
     t\<lparr>excluded := True, document_required := False,
       exclusion_reason :=
         Some (if reason r = None \<or> reason r = Some [] then str ''Auto-excluded''
               else the (reason r))\<rparr>"
  by (simp add: exclude_by_def split: option.splits)

lemma apply_exclusion_rules_first_hit:
  assumes "\<forall>r\<in>set pre. \<not> rule_hits py t r" and "rule_hits py t r1"
  shows "apply_exclusion_rules py t (pre @ r1 # rest) = (exclude_by r1 t, True)"
  by (simp only: apply_exclusion_rules_skip [OF assms(1)] apply_exclusion_rules_hit [OF assms(2)])

text \<open>
  C5. Let \<open>r1\<close> and \<open>r2\<close> be two enabled rules of the list that both match the transaction:
  each has \<open>rule_type\<close> \<open>supplier_name\<close> or \<open>description\<close>, and \<open>ExclusionRule.matches\<close> accepts
  the supplier name, or the description, of the transaction. Let \<open>r1\<close> be the earlier one, no
  rule before it matching. Then \<open>apply_exclusion_rules\<close> sets \<open>excluded = True\<close>,
  \<open>document_required = False\<close> and \<open>exclusion_reason\<close> to the reason of \<open>r1\<close> (\<open>Auto-excluded\<close>
  when that reason is \<open>None\<close> or empty), leaves the other fields, and returns \<open>True\<close>; the
  rules after \<open>r1\<close> have no part in the result, which is that of the list cut after \<open>r1\<close>.
\<close>

theorem first_match_wins:
  assumes "\<forall>r\<in>set pre. \<not> would_match py t r"
    and "enabled r1"
    and "rule_type r1 = str ''supplier_name'' \<and> matches py r1 (supplier_name t)
         \<or> rule_type r1 = str ''description'' \<and> matches py r1 (description t)"
    and "enabled r2"
    and "rule_type r2 = str ''supplier_name'' \<and> matches py r2 (supplier_name t)
         \<or> rule_type r2 = str ''description'' \<and> matches py r2 (description t)"
  shows "apply_exclusion_rules py t (pre @ r1 # mid @ r2 # post) =
           (t\<lparr>excluded := True, document_required := False,
              exclusion_reason :=
                Some (if reason r1 = None \<or> reason r1 = Some [] then str ''Auto-excluded''
                      else the (reason r1))\<rparr>, True)
         \<and> apply_exclusion_rules py t (pre @ r1 # mid @ r2 # post) =
           apply_exclusion_rules py t (pre @ [r1])"
proof -
  from assms(1) have a: "\<forall>r\<in>set pre. \<not> rule_hits py t r" by (simp add: rule_hits_iff)
  from assms(2,3) have b: "rule_hits py t r1" by (simp add: rule_hits_iff would_match_def)
  show ?thesis
    by (simp only: apply_exclusion_rules_first_hit [OF a b] exclude_by_eq [symmetric])
qed

lemmas engine_eval = would_match_def matches_def is_active_def exclude_by_def endswith_def

lemma demo_rules_match:
  "\<not> would_match demo_py open_row rule_off"
  "\<not> would_match demo_py open_row rule_acme"
  "enabled rule_acme"
  "enabled rule_aws" "rule_type rule_aws = str ''description''"
  "matches demo_py rule_aws (description open_row)"
  "enabled rule_initech" "rule_type rule_initech = str ''supplier_name''"
  "matches demo_py rule_initech (supplier_name open_row)"
  by (simp_all add: engine_eval demo_py_def open_row_def demo_row_def rule_off_def rule_aws_def
      rule_acme_def rule_initech_def)

theorem first_match_wins_witness:
  "\<not> would_match demo_py open_row rule_off
   \<and> enabled rule_acme \<and> \<not> would_match demo_py open_row rule_acme
   \<and> enabled rule_aws \<and> rule_type rule_aws = str ''description''
   \<and> matches demo_py rule_aws (description open_row)
   \<and> enabled rule_initech \<and> rule_type rule_initech = str ''supplier_name''
   \<and> matches demo_py rule_initech (supplier_name open_row)
   \<and> apply_exclusion_rules demo_py open_row [rule_off, rule_acme, rule_aws, rule_initech] =
       (open_row\<lparr>excluded := True, document_required := False,
          exclusion_reason := Some (str ''Cloud infra'')\<rparr>, True)"
proof -
  have "apply_exclusion_rules demo_py open_row
        ([rule_off, rule_acme] @ rule_aws # [] @ rule_initech # []) =
      (open_row\<lparr>excluded := True, document_required := False,
         exclusion_reason :=
           Some (if reason rule_aws = None \<or> reason rule_aws = Some [] then str ''Auto-excluded''
                 else the (reason rule_aws))\<rparr>, True)"
    using first_match_wins [of "[rule_off, rule_acme]" demo_py open_row rule_aws rule_initech
        "[]" "[]"] demo_rules_match
    by simp
  moreover have "reason rule_aws = Some (str ''Cloud infra'')" by (simp add: rule_aws_def)
  ultimately show ?thesis using demo_rules_match by simp
qed

section \<open>Transaction sync\<close>

lemmas sync_eval = upsert_xero_transactions_def upsert_record_def update_existing_def
  insert_new_def commit_def has_attachments_def str_or_def contact_name_def matches_def
  is_active_def exclude_by_def endswith_def

lemmas demo_eval = demo_py_def rules_db_def demo_db_def open_row_def demo_row_def
  demo_record_def record_acme_def record_other_def record_new_def rule_aws_def rule_acme_def
  synced_row_def new_row_def

subsection \<open>Queries\<close>

lemma query_first_None_iff: "query_first P xs = None \<longleftrightarrow> (\<forall>x\<in>set xs. \<not> P x)"
  by (induction xs) auto

lemma query_first_SomeD:
  "query_first P xs = Some i \<Longrightarrow> i < length xs \<and> P (xs ! i) \<and> (\<forall>j<i. \<not> P (xs ! j))"
proof (induction xs arbitrary: i)
  case Nil
  then show ?case by simp
next
  case (Cons x xs)
  show ?case
  proof (cases "P x")
    case True
    with Cons.prems show ?thesis by simp
  next
    case False
    with Cons.prems obtain k where k: "query_first P xs = Some k" "i = Suc k"
      by auto
    from Cons.IH [OF k(1)] False k(2) show ?thesis
      by (auto simp: less_Suc_eq_0_disj)
  qed
qed

lemma query_first_SomeI:
  "i < length xs \<Longrightarrow> P (xs ! i) \<Longrightarrow> \<forall>j<i. \<not> P (xs ! j) \<Longrightarrow> query_first P xs = Some i"
proof (induction xs arbitrary: i)
  case Nil
  then show ?case by simp
next
  case (Cons x xs)
  show ?case
  proof (cases i)
    case 0
    with Cons.prems show ?thesis by simp
  next
    case (Suc k)
    with Cons.prems have "\<not> P x" by auto
    moreover have "query_first P xs = Some k"
      using Cons.prems Suc by (intro Cons.IH) auto
    ultimately show ?thesis using Suc by simp
  qed
qed

lemma query_first_Some_iff:
  "query_first P xs = Some i \<longleftrightarrow> i < length xs \<and> P (xs ! i) \<and> (\<forall>j<i. \<not> P (xs ! j))"
  using query_first_SomeD query_first_SomeI by blast

lemma query_first_append_Some:
  "query_first P xs = Some i \<Longrightarrow> query_first P (xs @ ys) = Some i"
  by (induction xs arbitrary: i) (auto split: if_splits)

lemma query_first_append_None:
  "query_first P xs = None \<Longrightarrow> query_first P ys = Some k \<Longrightarrow>
   query_first P (xs @ ys) = Some (length xs + k)"
  by (induction xs) (auto split: if_splits)

lemma query_first_update_other:
  "\<not> P v \<Longrightarrow> \<not> P (xs ! j) \<Longrightarrow> j < length xs \<Longrightarrow>
   query_first P (xs [j := v]) = query_first P xs"
proof (induction xs arbitrary: j)
  case Nil
  then show ?case by simp
next
  case (Cons x xs)
  then show ?case by (cases j) simp_all
qed

lemma query_first_update_same:
  "query_first P xs = Some i \<Longrightarrow> P v \<Longrightarrow> query_first P (xs [i := v]) = Some i"
proof (induction xs arbitrary: i)
  case Nil
  then show ?case by simp
next
  case (Cons x xs)
  then show ?case by (cases i) (auto split: if_splits)
qed

subsection \<open>Engine\<close>

lemma apply_exclusion_rules_find:
  "apply_exclusion_rules py t rules =
     (case find (rule_hits py t) rules of
        None \<Rightarrow> (t, False)
      | Some r \<Rightarrow> (exclude_by r t, True))"
  by (induction rules) (auto simp: rule_hits_def)

lemma rule_hits_cong:
  "supplier_name t = supplier_name t' \<Longrightarrow> description t = description t' \<Longrightarrow>
   rule_hits py t r = rule_hits py t' r"
  by (simp add: rule_hits_def)

lemma find_rule_hits_cong:
  "supplier_name t = supplier_name t' \<Longrightarrow> description t = description t' \<Longrightarrow>
   find (rule_hits py t) rules = find (rule_hits py t') rules"
  using rule_hits_cong [of t t' py] by (intro find_cong) auto

lemma engine_invariant:
  "\<not> excluded t \<Longrightarrow> excluded (fst (apply_exclusion_rules py t rules)) \<Longrightarrow>
   \<not> document_required (fst (apply_exclusion_rules py t rules))"
  by (auto simp: apply_exclusion_rules_find exclude_by_def split: option.splits)

lemma engine_keeps:
  "organization_id (fst (apply_exclusion_rules py t rules)) = organization_id t"
  "xero_transaction_id (fst (apply_exclusion_rules py t rules)) = xero_transaction_id t"
  "tx_id (fst (apply_exclusion_rules py t rules)) = tx_id t"
  "document_received (fst (apply_exclusion_rules py t rules)) = document_received t"
  "description (fst (apply_exclusion_rules py t rules)) = description t"
  "supplier_name (fst (apply_exclusion_rules py t rules)) = supplier_name t"
  "date (fst (apply_exclusion_rules py t rules)) = date t"
  "amount (fst (apply_exclusion_rules py t rules)) = amount t"
  "xero_type (fst (apply_exclusion_rules py t rules)) = xero_type t"
  by (auto simp: apply_exclusion_rules_find exclude_by_def split: option.splits)

lemma rule_hits_engine:
  "rule_hits py (fst (apply_exclusion_rules py t rules)) r = rule_hits py t r"
  by (rule rule_hits_cong) (simp_all add: engine_keeps)

lemma engine_no_hit:
  "\<forall>r\<in>set rules. \<not> rule_hits py t r \<Longrightarrow> apply_exclusion_rules py t rules = (t, False)"
  by (induction rules) (auto simp: rule_hits_def)

lemma update_existing_keeps:
  "organization_id (update_existing py rules now h tx r) = organization_id r"
  "xero_transaction_id (update_existing py rules now h tx r) = xero_transaction_id r"
  "tx_id (update_existing py rules now h tx r) = tx_id r"
  by (simp_all add: update_existing_def engine_keeps)

lemma update_existing_received:
  "document_received r \<Longrightarrow> document_received (update_existing py rules now h tx r)"
  by (simp add: update_existing_def engine_keeps)

lemma insert_new_key:
  "organization_id (insert_new py rules org client now new_id x h tx) = org"
  "xero_transaction_id (insert_new py rules org client now new_id x h tx) = x"
  by (simp_all add: insert_new_def engine_keeps)

lemma str_or_idem: "str_or a (str_or a b) = str_or a b"
  by (simp add: str_or_def split: option.splits)

lemma update_existing_settles:
  assumes "business_fields r = business_fields (update_existing py rules now h tx r0)"
  shows "business_fields (update_existing py rules now' h tx r) =
         business_fields (update_existing py rules now h tx r0)"
proof -
  let ?o = "\<lambda>n e. e\<lparr>xero_type := Type tx, date := Date tx, amount := Total tx,
      description := str_or (Reference tx) (description e), supplier_name := contact_name tx,
      document_required := (\<not> h),
      document_received := (if h then True else document_received e), updated_at := n\<rparr>"
  have d: "description r = str_or (Reference tx) (description r0)"
    and e: "excluded r = excluded (update_existing py rules now h tx r0)"
    using assms by (simp_all add: business_fields_def update_existing_def engine_keeps)
  have f: "find (rule_hits py (?o now' r)) rules = find (rule_hits py (?o now r0)) rules"
    by (rule find_rule_hits_cong) (simp_all add: d str_or_idem)
  show ?thesis
    using assms f
    by (auto simp: business_fields_def update_existing_def apply_exclusion_rules_find
        exclude_by_def str_or_idem split: option.splits)
qed

lemma insert_new_settles:
  assumes "business_fields r = business_fields (insert_new py rules org client now new_id x h tx)"
  shows "business_fields (update_existing py rules now' h tx r) =
         business_fields (insert_new py rules org client now new_id x h tx)"
proof -
  let ?o = "r\<lparr>xero_type := Type tx, date := Date tx, amount := Total tx,
      description := str_or (Reference tx) (description r), supplier_name := contact_name tx,
      document_required := (\<not> h),
      document_received := (if h then True else document_received r), updated_at := now'\<rparr>"
  let ?n = "\<lparr>tx_id = new_id, organization_id = org, client_id = client,
        xero_transaction_id = x, xero_type = Type tx, date = Date tx, amount = Total tx,
        description = str_or (Reference tx) (LineAmountTypes tx),
        supplier_name = contact_name tx, document_required = (\<not> h),
        document_received = h, document_uploaded_at = None, excluded = False,
        exclusion_reason = None, created_at = now, updated_at = now\<rparr>"
  have d: "description r = str_or (Reference tx) (LineAmountTypes tx)"
    using assms by (simp add: business_fields_def insert_new_def engine_keeps)
  have f: "find (rule_hits py ?o) rules = find (rule_hits py ?n) rules"
    by (rule find_rule_hits_cong) (simp_all add: d str_or_idem)
  show ?thesis
    using assms f
    by (auto simp: business_fields_def update_existing_def insert_new_def
        apply_exclusion_rules_find exclude_by_def str_or_idem split: option.splits)
qed

subsection \<open>The loop body\<close>

lemma upsert_record_cases:
  obtains
    (skip) "BankTransactionID tx = None \<or> BankTransactionID tx = Some []"
      "upsert_record py rules org client now new_id s tx = s"
  | (insert) x where "BankTransactionID tx = Some x" "x \<noteq> []"
      "query_first (\<lambda>r. organization_id r = org \<and> xero_transaction_id r = x) (rows s) = None"
      "upsert_record py rules org client now new_id s tx =
         s\<lparr>added := added s @
            [insert_new py rules org client now new_id x (has_attachments tx) tx]\<rparr>"
  | (update) x i where "BankTransactionID tx = Some x" "x \<noteq> []"
      "query_first (\<lambda>r. organization_id r = org \<and> xero_transaction_id r = x) (rows s) = Some i"
      "upsert_record py rules org client now new_id s tx =
         s\<lparr>rows := (rows s)
            [i := update_existing py rules now (has_attachments tx) tx (rows s ! i)]\<rparr>"
proof (cases "BankTransactionID tx")
  case None
  then show ?thesis by (intro skip) (simp_all add: upsert_record_def)
next
  case (Some x)
  show ?thesis
  proof (cases "x = []")
    case True
    with Some show ?thesis by (intro skip) (simp_all add: upsert_record_def)
  next
    case False
    show ?thesis
    proof (cases "query_first (\<lambda>r. organization_id r = org \<and> xero_transaction_id r = x) (rows s)")
      case None
      with Some False show ?thesis by (intro insert [of x]) (simp_all add: upsert_record_def)
    next
      case (Some i)
      with \<open>BankTransactionID tx = Some x\<close> False show ?thesis
        by (intro update [of x i]) (simp_all add: upsert_record_def)
    qed
  qed
qed

lemma upsert_record_received:
  assumes "i < length (rows s)"
  shows "length (rows (upsert_record py rules org client now new_id s tx)) = length (rows s)
       \<and> tx_id (rows (upsert_record py rules org client now new_id s tx) ! i) = tx_id (rows s ! i)
       \<and> (document_received (rows s ! i) \<longrightarrow>
            document_received (rows (upsert_record py rules org client now new_id s tx) ! i))"
proof (cases rule: upsert_record_cases [of tx py rules org client now new_id s])
  case skip
  then show ?thesis by simp
next
  case (insert x)
  then show ?thesis by simp
next
  case (update x j)
  then show ?thesis using assms
    by (cases "i = j") (simp_all add: update_existing_keeps update_existing_received)
qed

lemma upsert_loop_received:
  assumes "i < length (rows s)"
  shows "length (rows (upsert_loop py rules org client now uuid4 k s txs)) = length (rows s)
       \<and> tx_id (rows (upsert_loop py rules org client now uuid4 k s txs) ! i) = tx_id (rows s ! i)
       \<and> (document_received (rows s ! i) \<longrightarrow>
            document_received (rows (upsert_loop py rules org client now uuid4 k s txs) ! i))"
  using assms
proof (induction txs arbitrary: s k)
  case Nil
  then show ?case by simp
next
  case (Cons tx txs)
  let ?s = "upsert_record py rules org client now (uuid4 k) s tx"
  from upsert_record_received [OF Cons.prems, of py rules org client now "uuid4 k" tx]
  have a: "length (rows ?s) = length (rows s)" "tx_id (rows ?s ! i) = tx_id (rows s ! i)"
    "document_received (rows s ! i) \<longrightarrow> document_received (rows ?s ! i)"
    by simp_all
  from a(1) Cons.prems have "i < length (rows ?s)" by simp
  from Cons.IH [OF this, of "Suc k"] a show ?case by simp
qed

lemma upsert_xero_transactions_table:
  assumes "upsert_xero_transactions py now uuid4 db org client txs = Inr db'"
  shows "\<exists>s. s = upsert_loop py
            (filter (\<lambda>r. rule_organization_id r = org \<and> enabled r) (exclusion_rules db))
            org client now uuid4 0 \<lparr>rows = transactions db, added = []\<rparr> txs
         \<and> commit s = Inr (rows s @ added s)
         \<and> db' = db\<lparr>transactions := rows s @ added s\<rparr>"
  using assms
  by (auto simp: upsert_xero_transactions_def commit_def Let_def split: sum.splits if_splits)

text \<open>
  C4. A row that exists before a call of \<open>upsert_xero_transactions\<close> with
  \<open>document_received = True\<close> is at the same place of the table after the call, the same row
  (\<open>tx_id\<close>), and its \<open>document_received\<close> is still \<open>True\<close>, whatever the records say about
  attachments. (A call that fails commits nothing.)
\<close>

theorem document_received_monotone:
  assumes "upsert_xero_transactions py now uuid4 db org client txs = Inr db'"
    and "i < length (transactions db)"
    and "document_received (transactions db ! i)"
  shows "i < length (transactions db')
       \<and> tx_id (transactions db' ! i) = tx_id (transactions db ! i)
       \<and> document_received (transactions db' ! i)"
proof -
  let ?s0 = "\<lparr>rows = transactions db, added = []\<rparr>"
  from upsert_xero_transactions_table [OF assms(1)] obtain s where
    s: "s = upsert_loop py
            (filter (\<lambda>r. rule_organization_id r = org \<and> enabled r) (exclusion_rules db))
            org client now uuid4 0 ?s0 txs"
    and db': "db' = db\<lparr>transactions := rows s @ added s\<rparr>"
    by blast
  have "i < length (rows ?s0)" using assms(2) by simp
  from upsert_loop_received [OF this, of py _ org client now uuid4 0 txs] assms(3) s
  have "length (rows s) = length (transactions db)"
    "tx_id (rows s ! i) = tx_id (transactions db ! i)" "document_received (rows s ! i)"
    by simp_all
  then show ?thesis using assms(2) db' by (simp add: nth_append)
qed

theorem document_received_monotone_witness:
  "upsert_xero_transactions demo_py 1000 Suc demo_db 1 7 [demo_record] =
     Inr (demo_db\<lparr>transactions := [demo_row\<lparr>document_required := True, updated_at := 1000\<rparr>]\<rparr>)
   \<and> document_received (transactions demo_db ! 0)
   \<and> document_received
       (transactions
          (demo_db\<lparr>transactions := [demo_row\<lparr>document_required := True, updated_at := 1000\<rparr>]\<rparr>) ! 0)"
  using document_received_monotone [of demo_py 1000 Suc demo_db 1 7 "[demo_record]"
      "demo_db\<lparr>transactions := [demo_row\<lparr>document_required := True, updated_at := 1000\<rparr>]\<rparr>" 0]
  by (simp add: sync_eval demo_eval)

subsection \<open>Exclusion implies no document required\<close>

lemma insert_new_invariant:
  "excluded (insert_new py rules org client now new_id x h tx) \<Longrightarrow>
   \<not> document_required (insert_new py rules org client now new_id x h tx)"
  unfolding insert_new_def by (rule engine_invariant) simp_all

lemma query_first_update_key:
  "i < length xs \<Longrightarrow> P v = P (xs ! i) \<Longrightarrow> query_first P (xs [i := v]) = query_first P xs"
proof (induction xs arbitrary: i)
  case Nil
  then show ?case by simp
next
  case (Cons x xs)
  then show ?case by (cases i) simp_all
qed

lemma upsert_record_query:
  "query_first (\<lambda>r. organization_id r = o' \<and> xero_transaction_id r = x)
     (rows (upsert_record py rules org client now new_id s tx)) =
   query_first (\<lambda>r. organization_id r = o' \<and> xero_transaction_id r = x) (rows s)"
proof (cases rule: upsert_record_cases [of tx py rules org client now new_id s])
  case skip
  then show ?thesis by simp
next
  case (insert y)
  then show ?thesis by simp
next
  case (update y i)
  from query_first_SomeD [OF update(3)] have "i < length (rows s)" by simp
  then show ?thesis
    unfolding update(4) by (simp add: query_first_update_key update_existing_keeps)
qed

lemma names_row_step:
  "names_row org (rows (upsert_record py rules org client now new_id s tx)) tx' j =
   names_row org (rows s) tx' j"
  by (simp add: names_row_def upsert_record_query split: option.splits)

lemma upsert_record_row:
  "j < length (rows s) \<Longrightarrow>
   rows (upsert_record py rules org client now new_id s tx) ! j =
     (if names_row org (rows s) tx j
      then update_existing py rules now (has_attachments tx) tx (rows s ! j)
      else rows s ! j)"
proof (cases rule: upsert_record_cases [of tx py rules org client now new_id s])
  case skip
  then show ?thesis by (auto simp: names_row_def)
next
  case (insert y)
  then show ?thesis by (simp add: names_row_def)
next
  case (update y i)
  assume "j < length (rows s)"
  then show ?thesis using update by (auto simp: names_row_def)
qed

lemma upsert_record_length:
  "length (rows (upsert_record py rules org client now new_id s tx)) = length (rows s)"
  by (cases rule: upsert_record_cases [of tx py rules org client now new_id s]) simp_all

lemma upsert_loop_length:
  "length (rows (upsert_loop py rules org client now uuid4 k s txs)) = length (rows s)"
  by (induction txs arbitrary: s k) (simp_all add: upsert_record_length)

lemma batch_ids_member:
  "tx \<in> set txs \<Longrightarrow> BankTransactionID tx = Some x \<Longrightarrow> x \<noteq> [] \<Longrightarrow> x \<in> set (batch_ids txs)"
  by (induction txs) (auto split: option.splits)

lemma names_row_unique:
  assumes "distinct (batch_ids (tx # txs))" and "names_row org table tx j"
    and "tx' \<in> set txs"
  shows "\<not> names_row org table tx' j"
proof
  assume n: "names_row org table tx' j"
  from assms(2) obtain x where x: "BankTransactionID tx = Some x" "x \<noteq> []"
    "query_first (\<lambda>r. organization_id r = org \<and> xero_transaction_id r = x) table = Some j"
    by (auto simp: names_row_def split: option.splits)
  from n obtain y where y: "BankTransactionID tx' = Some y" "y \<noteq> []"
    "query_first (\<lambda>r. organization_id r = org \<and> xero_transaction_id r = y) table = Some j"
    by (auto simp: names_row_def split: option.splits)
  from query_first_SomeD [OF x(3)] query_first_SomeD [OF y(3)] have "y = x" by simp
  with batch_ids_member [OF assms(3) y(1,2)] have "x \<in> set (batch_ids txs)" by simp
  with assms(1) x(1,2) show False by simp
qed

lemma upsert_loop_row_unnamed:
  assumes "j < length (rows s)" and "\<forall>tx\<in>set txs. \<not> names_row org (rows s) tx j"
  shows "rows (upsert_loop py rules org client now uuid4 k s txs) ! j = rows s ! j"
  using assms
proof (induction txs arbitrary: s k)
  case Nil
  then show ?case by simp
next
  case (Cons tx txs)
  let ?s = "upsert_record py rules org client now (uuid4 k) s tx"
  have "rows ?s ! j = rows s ! j" using Cons.prems by (simp add: upsert_record_row)
  moreover have "rows (upsert_loop py rules org client now uuid4 (Suc k) ?s txs) ! j = rows ?s ! j"
    using Cons.prems by (intro Cons.IH) (simp_all add: upsert_record_length names_row_step)
  ultimately show ?case by simp
qed

lemma upsert_loop_row_named:
  assumes "distinct (batch_ids txs)" and "j < length (rows s)"
    and "tx \<in> set txs" and "names_row org (rows s) tx j"
  shows "rows (upsert_loop py rules org client now uuid4 k s txs) ! j =
         update_existing py rules now (has_attachments tx) tx (rows s ! j)"
  using assms
proof (induction txs arbitrary: s k)
  case Nil
  then show ?case by simp
next
  case (Cons tx' txs)
  let ?s = "upsert_record py rules org client now (uuid4 k) s tx'"
  have l: "j < length (rows ?s)" using Cons.prems(2) by (simp add: upsert_record_length)
  have d: "distinct (batch_ids txs)"
    using Cons.prems(1) by (auto split: option.splits if_splits)
  show ?case
  proof (cases "names_row org (rows s) tx' j")
    case True
    then have u: "\<forall>t\<in>set txs. \<not> names_row org (rows ?s) t j"
      using names_row_unique [OF Cons.prems(1) True] by (simp add: names_row_step)
    from True u Cons.prems(3,4) have "tx = tx'" by (auto simp: names_row_step)
    moreover from upsert_loop_row_unnamed [OF l u]
    have "rows (upsert_loop py rules org client now uuid4 (Suc k) ?s txs) ! j = rows ?s ! j" .
    ultimately show ?thesis using True Cons.prems(2) by (simp add: upsert_record_row)
  next
    case False
    with Cons.prems(3,4) have m: "tx \<in> set txs" by auto
    have r: "rows ?s ! j = rows s ! j" using False Cons.prems(2) by (simp add: upsert_record_row)
    from Cons.prems(4) have "names_row org (rows ?s) tx j" by (simp add: names_row_step)
    from Cons.IH [OF d l m this, of "Suc k"] r show ?thesis by simp
  qed
qed

lemma upsert_loop_added_invariant:
  assumes "\<forall>r\<in>set (added s). excluded r \<longrightarrow> \<not> document_required r"
  shows "\<forall>r\<in>set (added (upsert_loop py rules org client now uuid4 k s txs)).
           excluded r \<longrightarrow> \<not> document_required r"
  using assms
proof (induction txs arbitrary: s k)
  case Nil
  then show ?case by simp
next
  case (Cons tx txs)
  let ?s = "upsert_record py rules org client now (uuid4 k) s tx"
  have "\<forall>r\<in>set (added ?s). excluded r \<longrightarrow> \<not> document_required r"
    using Cons.prems insert_new_invariant
    by (cases rule: upsert_record_cases [of tx py rules org client now "uuid4 k" s]) auto
  from Cons.IH [OF this, of "Suc k"] show ?case by simp
qed

lemma update_existing_flags:
  "if \<exists>rule\<in>set rules. would_match py (update_existing py rules now h tx r) rule
   then excluded (update_existing py rules now h tx r)
        \<and> \<not> document_required (update_existing py rules now h tx r)
   else excluded (update_existing py rules now h tx r) = excluded r
        \<and> document_required (update_existing py rules now h tx r) = (\<not> h)"
proof -
  let ?o = "r\<lparr>xero_type := Type tx, date := Date tx, amount := Total tx,
      description := str_or (Reference tx) (description r), supplier_name := contact_name tx,
      document_required := (\<not> h),
      document_received := (if h then True else document_received r), updated_at := now\<rparr>"
  have u: "update_existing py rules now h tx r = fst (apply_exclusion_rules py ?o rules)"
    by (simp add: update_existing_def)
  have w: "would_match py (update_existing py rules now h tx r) rule = rule_hits py ?o rule"
    for rule
    unfolding u rule_hits_iff [symmetric] by (rule rule_hits_engine)
  show ?thesis
  proof (cases "find (rule_hits py ?o) rules")
    case None
    then have "\<not> (\<exists>rule\<in>set rules. rule_hits py ?o rule)" by (simp add: find_None_iff)
    with None show ?thesis unfolding w by (simp add: u apply_exclusion_rules_find)
  next
    case (Some a)
    then have "\<exists>rule\<in>set rules. rule_hits py ?o rule" by (auto simp: find_Some_iff)
    with Some show ?thesis unfolding w
      by (simp add: u apply_exclusion_rules_find exclude_by_def)
  qed
qed

lemma names_row_length: "names_row org table tx j \<Longrightarrow> j < length table"
  by (auto simp: names_row_def split: option.splits dest: query_first_SomeD)

text \<open>
  C1, as amended. Take a call of \<open>upsert_xero_transactions\<close> that commits, on a record list
  that names each provider transaction id at most once and a table in which \<open>excluded = True\<close>
  implied \<open>document_required = False\<close> before the call. After the call, a row that no record
  of the list names, and a row that the call inserted, satisfy the implication. A row that a
  record of the list updates is excluded with \<open>document_required = False\<close> when an enabled
  rule of the organization matches it, and otherwise keeps its \<open>excluded\<close> and has
  \<open>document_required = NOT has_attachments\<close>. So the implication fails after the call for
  exactly the rows that were already excluded, are updated by a record without attachments
  and match no enabled rule of the organization.
\<close>

theorem excluded_rows_after_sync:
  assumes "upsert_xero_transactions py now uuid4 db org client txs = Inr db'"
    and "distinct (batch_ids txs)"
    and "\<forall>r\<in>set (transactions db). excluded r \<longrightarrow> \<not> document_required r"
    and "j < length (transactions db')"
  shows "((\<forall>tx\<in>set txs. \<not> names_row org (transactions db) tx j) \<longrightarrow>
           (excluded (transactions db' ! j) \<longrightarrow> \<not> document_required (transactions db' ! j)))
       \<and> (\<forall>tx\<in>set txs. names_row org (transactions db) tx j \<longrightarrow>
            (if \<exists>rule\<in>set (exclusion_rules db).
                  rule_organization_id rule = org \<and> would_match py (transactions db' ! j) rule
             then excluded (transactions db' ! j) \<and> \<not> document_required (transactions db' ! j)
             else excluded (transactions db' ! j) = excluded (transactions db ! j)
                  \<and> document_required (transactions db' ! j) = (\<not> has_attachments tx)))
       \<and> (excluded (transactions db' ! j) \<and> document_required (transactions db' ! j) \<longleftrightarrow>
            (\<exists>tx\<in>set txs. names_row org (transactions db) tx j \<and> \<not> has_attachments tx)
            \<and> excluded (transactions db ! j)
            \<and> \<not> (\<exists>rule\<in>set (exclusion_rules db).
                   rule_organization_id rule = org \<and> would_match py (transactions db' ! j) rule))"
proof -
  let ?rules = "filter (\<lambda>r. rule_organization_id r = org \<and> enabled r) (exclusion_rules db)"
  let ?s0 = "\<lparr>rows = transactions db, added = []\<rparr>"
  let ?M = "\<exists>rule\<in>set (exclusion_rules db).
      rule_organization_id rule = org \<and> would_match py (transactions db' ! j) rule"
  from upsert_xero_transactions_table [OF assms(1)] obtain s where
    s: "s = upsert_loop py ?rules org client now uuid4 0 ?s0 txs"
    and db': "db' = db\<lparr>transactions := rows s @ added s\<rparr>"
    by blast
  have len: "length (rows s) = length (transactions db)"
    unfolding s by (simp add: upsert_loop_length)
  have m: "(\<exists>rule\<in>set (exclusion_rules db).
               rule_organization_id rule = org \<and> would_match py u rule) \<longleftrightarrow>
           (\<exists>rule\<in>set ?rules. would_match py u rule)" for u
    by (auto simp: would_match_def)
  have unnamed: "excluded (transactions db' ! j) \<longrightarrow> \<not> document_required (transactions db' ! j)"
    if n: "\<forall>tx\<in>set txs. \<not> names_row org (transactions db) tx j"
  proof (cases "j < length (transactions db)")
    case True
    have "rows s ! j = rows ?s0 ! j"
      unfolding s using True n by (intro upsert_loop_row_unnamed) simp_all
    then have "transactions db' ! j = transactions db ! j"
      using True len by (simp add: db' nth_append)
    with assms(3) True show ?thesis by simp
  next
    case False
    have "\<forall>r\<in>set (added s). excluded r \<longrightarrow> \<not> document_required r"
      unfolding s by (rule upsert_loop_added_invariant) simp
    moreover have "transactions db' ! j \<in> set (added s)"
      using False assms(4) len by (simp add: db' nth_append)
    ultimately show ?thesis by blast
  qed
  have named: "if ?M
       then excluded (transactions db' ! j) \<and> \<not> document_required (transactions db' ! j)
       else excluded (transactions db' ! j) = excluded (transactions db ! j)
            \<and> document_required (transactions db' ! j) = (\<not> has_attachments tx)"
    if t: "tx \<in> set txs" and n: "names_row org (transactions db) tx j" for tx
  proof -
    from names_row_length [OF n] have j: "j < length (transactions db)" .
    have "rows s ! j =
        update_existing py ?rules now (has_attachments tx) tx (rows ?s0 ! j)"
      unfolding s using assms(2) j t n by (intro upsert_loop_row_named) simp_all
    then have r: "transactions db' ! j =
        update_existing py ?rules now (has_attachments tx) tx (transactions db ! j)"
      using j len by (simp add: db' nth_append)
    show ?thesis unfolding r m by (rule update_existing_flags)
  qed
  show ?thesis
  proof (intro conjI)
    show "(\<forall>tx\<in>set txs. \<not> names_row org (transactions db) tx j) \<longrightarrow>
        (excluded (transactions db' ! j) \<longrightarrow> \<not> document_required (transactions db' ! j))"
      using unnamed by blast
    show "\<forall>tx\<in>set txs. names_row org (transactions db) tx j \<longrightarrow>
        (if ?M
         then excluded (transactions db' ! j) \<and> \<not> document_required (transactions db' ! j)
         else excluded (transactions db' ! j) = excluded (transactions db ! j)
              \<and> document_required (transactions db' ! j) = (\<not> has_attachments tx))"
      using named by blast
    show "excluded (transactions db' ! j) \<and> document_required (transactions db' ! j) \<longleftrightarrow>
        (\<exists>tx\<in>set txs. names_row org (transactions db) tx j \<and> \<not> has_attachments tx)
        \<and> excluded (transactions db ! j) \<and> \<not> ?M"
    proof (cases "\<exists>tx\<in>set txs. names_row org (transactions db) tx j")
      case False
      with unnamed show ?thesis by blast
    next
      case True
      then obtain tx where t: "tx \<in> set txs" "names_row org (transactions db) tx j" by blast
      show ?thesis
      proof (cases ?M)
        case True
        with named [OF t] show ?thesis by simp
      next
        case False
        with named [OF t] t named show ?thesis by auto
      qed
    qed
  qed
qed

lemma resync_call:
  "upsert_xero_transactions demo_py 2000 Suc (rules_db\<lparr>transactions := [synced_row, new_row]\<rparr>)
     1 7 [record_acme, record_new] =
   Inr (rules_db\<lparr>transactions := [synced_row\<lparr>updated_at := 2000\<rparr>, new_row\<lparr>updated_at := 2000\<rparr>]\<rparr>)"
  by (simp add: sync_eval demo_eval)

lemma resync_facts:
  "distinct (batch_ids [record_acme, record_new])"
  "names_row 1 [synced_row, new_row] record_acme 0"
  "names_row 1 [synced_row, new_row] record_new 1"
  "excluded synced_row" "\<not> document_required synced_row" "\<not> excluded new_row"
  "\<not> has_attachments record_new"
  "rule_organization_id rule_aws = 1"
  "would_match demo_py (synced_row\<lparr>updated_at := 2000\<rparr>) rule_aws"
  "\<not> would_match demo_py (new_row\<lparr>updated_at := 2000\<rparr>) rule_aws"
  "\<not> would_match demo_py (new_row\<lparr>updated_at := 2000\<rparr>) rule_acme"
  by (simp_all add: names_row_def engine_eval has_attachments_def demo_eval)

theorem excluded_rows_after_sync_witness:
  "upsert_xero_transactions demo_py 2000 Suc (rules_db\<lparr>transactions := [synced_row, new_row]\<rparr>)
     1 7 [record_acme, record_new] =
   Inr (rules_db\<lparr>transactions := [synced_row\<lparr>updated_at := 2000\<rparr>, new_row\<lparr>updated_at := 2000\<rparr>]\<rparr>)
   \<and> distinct (batch_ids [record_acme, record_new])
   \<and> excluded synced_row \<and> \<not> document_required synced_row \<and> \<not> excluded new_row
   \<and> names_row 1 [synced_row, new_row] record_acme 0
   \<and> would_match demo_py (synced_row\<lparr>updated_at := 2000\<rparr>) rule_aws
   \<and> excluded (synced_row\<lparr>updated_at := 2000\<rparr>)
   \<and> \<not> document_required (synced_row\<lparr>updated_at := 2000\<rparr>)
   \<and> names_row 1 [synced_row, new_row] record_new 1
   \<and> \<not> would_match demo_py (new_row\<lparr>updated_at := 2000\<rparr>) rule_aws
   \<and> \<not> would_match demo_py (new_row\<lparr>updated_at := 2000\<rparr>) rule_acme
   \<and> \<not> has_attachments record_new
   \<and> \<not> excluded (new_row\<lparr>updated_at := 2000\<rparr>)
   \<and> document_required (new_row\<lparr>updated_at := 2000\<rparr>)"
proof -
  let ?db = "rules_db\<lparr>transactions := [synced_row, new_row]\<rparr>"
  let ?db' = "rules_db\<lparr>transactions := [synced_row\<lparr>updated_at := 2000\<rparr>, new_row\<lparr>updated_at := 2000\<rparr>]\<rparr>"
  have inv: "\<forall>r\<in>set (transactions ?db). excluded r \<longrightarrow> \<not> document_required r"
    using resync_facts by simp
  have rules: "exclusion_rules ?db = [rule_aws, rule_acme]" by (simp add: rules_db_def)
  have l: "0 < length (transactions ?db')" "1 < length (transactions ?db')" by simp_all
  from excluded_rows_after_sync [OF resync_call resync_facts(1) inv l(1)]
  have a: "excluded (synced_row\<lparr>updated_at := 2000\<rparr>)
      \<and> \<not> document_required (synced_row\<lparr>updated_at := 2000\<rparr>)"
    using resync_facts rules by auto
  from excluded_rows_after_sync [OF resync_call resync_facts(1) inv l(2)]
  have b: "\<not> excluded (new_row\<lparr>updated_at := 2000\<rparr>)
      \<and> document_required (new_row\<lparr>updated_at := 2000\<rparr>)"
    using resync_facts rules by auto
  from a b resync_call resync_facts show ?thesis by simp
qed

subsection \<open>Idempotence\<close>

lemma settled_skip:
  "BankTransactionID tx = None \<or> BankTransactionID tx = Some [] \<Longrightarrow> settled py rules org table tx"
  by (auto simp: settled_def)

lemma settled_iff:
  "BankTransactionID tx = Some x \<Longrightarrow> x \<noteq> [] \<Longrightarrow>
   settled py rules org table tx \<longleftrightarrow>
     (\<exists>i. query_first (\<lambda>r. organization_id r = org \<and> xero_transaction_id r = x) table = Some i
        \<and> (\<forall>now r. business_fields r = business_fields (table ! i) \<longrightarrow>
               business_fields (update_existing py rules now (has_attachments tx) tx r) =
               business_fields (table ! i)))"
  by (simp add: settled_def)

lemma settled_step:
  assumes st: "settled py rules org (rows s @ added s) tx"
    and other: "BankTransactionID tx' \<noteq> BankTransactionID tx"
  shows "settled py rules org
           (rows (upsert_record py rules org client now new_id s tx') @
            added (upsert_record py rules org client now new_id s tx')) tx"
proof (cases "BankTransactionID tx = None \<or> BankTransactionID tx = Some []")
  case True
  then show ?thesis by (rule settled_skip)
next
  case False
  then obtain x where x: "BankTransactionID tx = Some x" "x \<noteq> []" by auto
  let ?P = "\<lambda>r. organization_id r = org \<and> xero_transaction_id r = x"
  let ?T = "rows s @ added s"
  from st obtain i where i: "query_first ?P ?T = Some i"
    and fp: "\<forall>now r. business_fields r = business_fields (?T ! i) \<longrightarrow>
               business_fields (update_existing py rules now (has_attachments tx) tx r) =
               business_fields (?T ! i)"
    unfolding settled_iff [OF x] by blast
  from query_first_SomeD [OF i] have iT: "i < length ?T" "?P (?T ! i)" "\<forall>j<i. \<not> ?P (?T ! j)"
    by blast+
  show ?thesis
  proof (cases rule: upsert_record_cases [of tx' py rules org client now new_id s])
    case skip
    with st show ?thesis by simp
  next
    case (insert y)
    let ?n = "insert_new py rules org client now new_id y (has_attachments tx') tx'"
    have "query_first ?P (?T @ [?n]) = Some i"
      using i by (rule query_first_append_Some)
    moreover have "(?T @ [?n]) ! i = ?T ! i" using iT(1) by (simp only: nth_append if_True)
    ultimately show ?thesis
      unfolding settled_iff [OF x] using fp by (auto simp: insert(4))
  next
    case (update y j)
    let ?u = "update_existing py rules now (has_attachments tx') tx' (rows s ! j)"
    from query_first_SomeD [OF update(3)] have j: "j < length (rows s)"
      "xero_transaction_id (rows s ! j) = y" by simp_all
    from other update(1) x have yx: "y \<noteq> x" by auto
    have T': "(rows s) [j := ?u] @ added s = ?T [j := ?u]"
      using j(1) by (simp add: list_update_append1)
    have nu: "\<not> ?P ?u" using yx j(2) by (simp add: update_existing_keeps)
    have nj: "\<not> ?P (?T ! j)" using yx j by (simp add: nth_append)
    with iT(2) have ij: "i \<noteq> j" by auto
    have jT: "j < length ?T" using j(1) by simp
    have "query_first ?P (?T [j := ?u]) = Some i"
      using query_first_update_other [of ?P ?u ?T j, OF nu nj jT] i by simp
    moreover have "?T [j := ?u] ! i = ?T ! i" using ij by simp
    ultimately show ?thesis
      unfolding settled_iff [OF x] using fp by (auto simp: update(4) T')
  qed
qed

lemma ids_other:
  assumes "BankTransactionID tx = Some x" "x \<noteq> []" "x \<notin> set (batch_ids txs)" "tx' \<in> set txs"
  shows "BankTransactionID tx' \<noteq> BankTransactionID tx"
  using assms by (induction txs) (auto split: option.splits if_splits)

lemma settled_loop:
  assumes "settled py rules org (rows s @ added s) tx"
    and "\<forall>tx'\<in>set txs. BankTransactionID tx' \<noteq> BankTransactionID tx"
  shows "settled py rules org
           (rows (upsert_loop py rules org client now uuid4 k s txs) @
            added (upsert_loop py rules org client now uuid4 k s txs)) tx"
  using assms
proof (induction txs arbitrary: s k)
  case Nil
  then show ?case by simp
next
  case (Cons tx' txs)
  from Cons.prems(2) have "BankTransactionID tx' \<noteq> BankTransactionID tx" by simp
  from settled_step [OF Cons.prems(1) this, of client now "uuid4 k"] Cons.prems(2)
  show ?case by (simp add: Cons.IH)
qed


lemma settled_after_record:
  assumes x: "BankTransactionID tx = Some x" "x \<noteq> []"
    and fresh: "\<forall>r\<in>set (added s). \<not> (organization_id r = org \<and> xero_transaction_id r = x)"
  shows "settled py rules org
           (rows (upsert_record py rules org client now new_id s tx) @
            added (upsert_record py rules org client now new_id s tx)) tx"
proof (cases rule: upsert_record_cases [of tx py rules org client now new_id s])
  case skip
  with x show ?thesis by simp
next
  case (insert y)
  with x have y: "y = x" by simp
  let ?P = "\<lambda>r. organization_id r = org \<and> xero_transaction_id r = x"
  let ?n = "insert_new py rules org client now new_id x (has_attachments tx) tx"
  have "query_first ?P (added s) = None" using fresh by (simp add: query_first_None_iff)
  moreover have "query_first ?P [?n] = Some 0" by (simp add: insert_new_key)
  ultimately have "query_first ?P (added s @ [?n]) = Some (length (added s) + 0)"
    by (rule query_first_append_None)
  with insert(3) have "query_first ?P (rows s @ added s @ [?n]) =
      Some (length (rows s) + (length (added s) + 0))"
    unfolding y by (rule query_first_append_None)
  moreover have "(rows s @ added s @ [?n]) ! (length (rows s) + (length (added s) + 0)) = ?n"
    by (simp add: nth_append)
  ultimately show ?thesis
    unfolding settled_iff [OF x] using insert_new_settles by (auto simp: insert(4) y)
next
  case (update y i)
  with x have y: "y = x" by simp
  let ?P = "\<lambda>r. organization_id r = org \<and> xero_transaction_id r = x"
  let ?u = "update_existing py rules now (has_attachments tx) tx (rows s ! i)"
  from update(3) have q: "query_first ?P (rows s) = Some i" unfolding y .
  from query_first_SomeD [OF q] have i: "i < length (rows s)" "?P (rows s ! i)" by simp_all
  have "?P ?u" using i(2) by (simp add: update_existing_keeps)
  with q have "query_first ?P ((rows s) [i := ?u]) = Some i" by (rule query_first_update_same)
  then have "query_first ?P ((rows s) [i := ?u] @ added s) = Some i"
    by (rule query_first_append_Some)
  moreover have "((rows s) [i := ?u] @ added s) ! i = ?u" using i(1) by (simp add: nth_append)
  ultimately show ?thesis
    unfolding settled_iff [OF x] using update_existing_settles by (auto simp: update(4) y)
qed

lemma upsert_record_added:
  "r \<in> set (added (upsert_record py rules org client now new_id s tx)) \<Longrightarrow>
   r \<in> set (added s) \<or>
   (BankTransactionID tx = Some (xero_transaction_id r) \<and> xero_transaction_id r \<noteq> [])"
  by (cases rule: upsert_record_cases [of tx py rules org client now new_id s])
    (auto simp: insert_new_key)

lemma all_settled_after_loop:
  assumes "distinct (batch_ids txs)"
    and "\<forall>r\<in>set (added s). xero_transaction_id r \<notin> set (batch_ids txs)"
    and "tx \<in> set txs"
  shows "settled py rules org
           (rows (upsert_loop py rules org client now uuid4 k s txs) @
            added (upsert_loop py rules org client now uuid4 k s txs)) tx"
  using assms
proof (induction txs arbitrary: s k)
  case Nil
  then show ?case by simp
next
  case (Cons tx' txs)
  let ?s = "upsert_record py rules org client now (uuid4 k) s tx'"
  show ?case
  proof (cases "BankTransactionID tx = None \<or> BankTransactionID tx = Some []")
    case True
    then show ?thesis by (rule settled_skip)
  next
    case False
    then obtain x where x: "BankTransactionID tx = Some x" "x \<noteq> []" by auto
    have d: "distinct (batch_ids txs)"
      using Cons.prems(1) by (auto split: option.splits if_splits)
    have a: "\<forall>r\<in>set (added ?s). xero_transaction_id r \<notin> set (batch_ids txs)"
    proof
      fix r assume "r \<in> set (added ?s)"
      from upsert_record_added [OF this]
      show "xero_transaction_id r \<notin> set (batch_ids txs)"
        using Cons.prems(1,2) by (auto split: option.splits if_splits)
    qed
    show ?thesis
    proof (cases "tx \<in> set txs")
      case True
      from Cons.IH [OF d a True, of "Suc k"] show ?thesis by simp
    next
      case False
      with Cons.prems(3) have eq: "tx' = tx" by simp
      have "x \<in> set (batch_ids (tx' # txs))" using x eq by simp
      with Cons.prems(2) have "\<forall>r\<in>set (added s).
          \<not> (organization_id r = org \<and> xero_transaction_id r = x)" by blast
      from settled_after_record [OF x this, of py rules client now "uuid4 k"]
      have st: "settled py rules org (rows ?s @ added ?s) tx" by (simp add: eq)
      have "x \<notin> set (batch_ids txs)" using Cons.prems(1) x eq by simp
      then have "\<forall>t\<in>set txs. BankTransactionID t \<noteq> BankTransactionID tx"
        using ids_other [OF x] by blast
      from settled_loop [OF st this, of client now uuid4 "Suc k"] show ?thesis by simp
    qed
  qed
qed


lemma query_first_business:
  assumes "map business_fields xs = map business_fields ys"
  shows "query_first (\<lambda>r. organization_id r = org \<and> xero_transaction_id r = x) xs =
         query_first (\<lambda>r. organization_id r = org \<and> xero_transaction_id r = x) ys"
  using assms
proof (induction xs arbitrary: ys)
  case Nil
  then show ?case by simp
next
  case (Cons a xs)
  then obtain b zs where ys: "ys = b # zs" by (cases ys) auto
  with Cons.prems have ab: "business_fields a = business_fields b"
    and m: "map business_fields xs = map business_fields zs" by simp_all
  from ab have "organization_id a = organization_id b"
    "xero_transaction_id a = xero_transaction_id b" by (simp_all add: business_fields_def)
  with Cons.IH [OF m] show ?case by (simp add: ys)
qed

lemma map_eq_nth:
  assumes "map f xs = map f ys" and "i < length xs"
  shows "f (xs ! i) = f (ys ! i)"
proof -
  from assms(1) have l: "length ys = length xs" by (rule map_eq_imp_length_eq [symmetric])
  from assms(1) have "map f xs ! i = map f ys ! i" by simp
  with assms(2) l show ?thesis by simp
qed

lemma second_loop:
  assumes "\<forall>tx\<in>set txs. settled py rules org table tx"
    and "map business_fields (rows s) = map business_fields table"
    and "added s = []"
  shows "added (upsert_loop py rules org client now uuid4 k s txs) = []
       \<and> map business_fields (rows (upsert_loop py rules org client now uuid4 k s txs)) =
         map business_fields table"
  using assms
proof (induction txs arbitrary: s k)
  case Nil
  then show ?case by simp
next
  case (Cons tx txs)
  let ?s = "upsert_record py rules org client now (uuid4 k) s tx"
  have "added ?s = [] \<and> map business_fields (rows ?s) = map business_fields table"
  proof (cases rule: upsert_record_cases [of tx py rules org client now "uuid4 k" s])
    case skip
    with Cons.prems show ?thesis by simp
  next
    case (insert x)
    from Cons.prems(1) have "settled py rules org table tx" by simp
    then obtain i where
      "query_first (\<lambda>r. organization_id r = org \<and> xero_transaction_id r = x) table = Some i"
      unfolding settled_iff [OF insert(1,2)] by blast
    with insert(3) query_first_business [OF Cons.prems(2), of org x] show ?thesis by simp
  next
    case (update x i)
    from Cons.prems(1) have "settled py rules org table tx" by simp
    then obtain j where
      j: "query_first (\<lambda>r. organization_id r = org \<and> xero_transaction_id r = x) table = Some j"
      and fp: "\<forall>now r. business_fields r = business_fields (table ! j) \<longrightarrow>
               business_fields (update_existing py rules now (has_attachments tx) tx r) =
               business_fields (table ! j)"
      unfolding settled_iff [OF update(1,2)] by blast
    from j update(3) query_first_business [OF Cons.prems(2), of org x] have ji: "j = i" by simp
    from query_first_SomeD [OF update(3)] have i: "i < length (rows s)" by simp
    from Cons.prems(2) i have "business_fields (rows s ! i) = business_fields (table ! i)"
      by (rule map_eq_nth)
    with fp ji have "business_fields
        (update_existing py rules now (has_attachments tx) tx (rows s ! i)) =
        business_fields (table ! i)" by blast
    moreover from Cons.prems(2) have "length table = length (rows s)"
      by (rule map_eq_imp_length_eq [symmetric])
    ultimately have "map business_fields ((rows s)
        [i := update_existing py rules now (has_attachments tx) tx (rows s ! i)]) =
        map business_fields table"
      using i by (simp only: map_update Cons.prems(2)) (simp add: list_update_same_conv)
    then show ?thesis using Cons.prems(3) by (simp add: update(4))
  qed
  with Cons.IH [of ?s "Suc k"] Cons.prems(1) show ?case by simp
qed

lemma business_xids:
  "map business_fields xs = map business_fields ys \<Longrightarrow>
   map xero_transaction_id xs = map xero_transaction_id ys"
proof (induction xs arbitrary: ys)
  case Nil
  then show ?case by simp
next
  case (Cons a xs)
  then obtain b zs where ys: "ys = b # zs" by (cases ys) auto
  with Cons.prems have ab: "business_fields a = business_fields b"
    and m: "map business_fields xs = map business_fields zs" by simp_all
  from ab have "xero_transaction_id a = xero_transaction_id b"
    by (simp add: business_fields_def)
  with Cons.IH [OF m] show ?case by (simp add: ys)
qed

lemma business_not_null:
  "map business_fields xs = map business_fields ys \<Longrightarrow>
   list_all (\<lambda>r. date r \<noteq> None \<and> amount r \<noteq> None) xs =
   list_all (\<lambda>r. date r \<noteq> None \<and> amount r \<noteq> None) ys"
proof (induction xs arbitrary: ys)
  case Nil
  then show ?case by simp
next
  case (Cons a xs)
  then obtain b zs where ys: "ys = b # zs" by (cases ys) auto
  with Cons.prems have ab: "business_fields a = business_fields b"
    and m: "map business_fields xs = map business_fields zs" by simp_all
  from ab have "date a = date b" "amount a = amount b"
    by (simp_all add: business_fields_def)
  with Cons.IH [OF m] show ?case by (simp add: ys)
qed

lemma commit_business:
  assumes "map business_fields xs = map business_fields ys"
    and "commit \<lparr>rows = ys, added = []\<rparr> = Inr ys"
  shows "commit \<lparr>rows = xs, added = []\<rparr> = Inr xs"
  using assms(2) business_xids [OF assms(1)] business_not_null [OF assms(1)]
  by (simp add: commit_def Let_def split: if_splits)


text \<open>
  C3, as amended. When the record list names each provider transaction id at most once and
  a first call of \<open>upsert_xero_transactions\<close> has committed, a second call with the same
  records and rules (at any later time, with any fresh identifiers) commits too and leaves
  a table with the same rows in the same places: the same keys
  \<open>(organization_id, xero_transaction_id)\<close>, no key twice, and the same business fields.
\<close>

theorem sync_twice_same_rows:
  assumes "upsert_xero_transactions py now uuid4 db org client txs = Inr db1"
    and "distinct (batch_ids txs)"
  shows "\<exists>db2. upsert_xero_transactions py now' uuid4' db1 org client txs = Inr db2
           \<and> map business_fields (transactions db2) = map business_fields (transactions db1)
           \<and> distinct (map (\<lambda>r. (organization_id r, xero_transaction_id r)) (transactions db2))"
proof -
  let ?rules = "filter (\<lambda>r. rule_organization_id r = org \<and> enabled r) (exclusion_rules db)"
  from upsert_xero_transactions_table [OF assms(1)] obtain s where
    s: "s = upsert_loop py ?rules org client now uuid4 0
              \<lparr>rows = transactions db, added = []\<rparr> txs"
    and c: "commit s = Inr (rows s @ added s)"
    and db1: "db1 = db\<lparr>transactions := rows s @ added s\<rparr>"
    by blast
  let ?T = "rows s @ added s"
  have st: "\<forall>tx\<in>set txs. settled py ?rules org ?T tx"
    unfolding s using assms(2) by (intro ballI all_settled_after_loop) simp_all
  let ?s2 = "upsert_loop py ?rules org client now' uuid4' 0 \<lparr>rows = ?T, added = []\<rparr> txs"
  from second_loop [OF st, of "\<lparr>rows = ?T, added = []\<rparr>" client now' uuid4' 0]
  have s2: "added ?s2 = []" "map business_fields (rows ?s2) = map business_fields ?T"
    by simp_all
  have cT: "commit \<lparr>rows = ?T, added = []\<rparr> = Inr ?T"
    using c by (simp add: commit_def Let_def split: if_splits)
  have "?s2 = \<lparr>rows = rows ?s2, added = []\<rparr>" using s2(1) by (cases ?s2) simp
  with commit_business [OF s2(2) cT] have c2: "commit ?s2 = Inr (rows ?s2)" by simp
  have dT: "distinct (map xero_transaction_id ?T)"
    using c by (simp add: commit_def Let_def split: if_splits)
  have "distinct (map xero_transaction_id (rows ?s2))"
    by (simp only: business_xids [OF s2(2)] dT)
  then have "distinct (map (\<lambda>r. (organization_id r, xero_transaction_id r)) (rows ?s2))"
    by (simp add: distinct_map inj_on_def)
  with c2 s2(2) show ?thesis
    by (simp add: upsert_xero_transactions_def db1 Let_def)
qed

theorem sync_twice_same_rows_witness:
  "upsert_xero_transactions demo_py 1000 Suc rules_db 1 7 [record_acme, record_new] =
     Inr (rules_db\<lparr>transactions := [synced_row, new_row]\<rparr>)
   \<and> distinct (batch_ids [record_acme, record_new])
   \<and> upsert_xero_transactions demo_py 2000 Suc (rules_db\<lparr>transactions := [synced_row, new_row]\<rparr>)
       1 7 [record_acme, record_new] =
     Inr (rules_db\<lparr>transactions := [synced_row\<lparr>updated_at := 2000\<rparr>, new_row\<lparr>updated_at := 2000\<rparr>]\<rparr>)
   \<and> map business_fields [synced_row\<lparr>updated_at := 2000\<rparr>, new_row\<lparr>updated_at := 2000\<rparr>] =
     map business_fields [synced_row, new_row]"
  using sync_twice_same_rows [of demo_py 1000 Suc rules_db 1 7 "[record_acme, record_new]"
      "rules_db\<lparr>transactions := [synced_row, new_row]\<rparr>" 2000 Suc]
  by (simp add: sync_eval demo_eval business_fields_def)

text \<open>
  C1 fails on a row that is already excluded: the update branch sets \<open>document_required\<close>
  from the record and no rule matches, so the row stays excluded and requires a document.
\<close>

theorem excluded_row_counterexample:
  "upsert_xero_transactions demo_py 1000 Suc demo_db 1 7 [demo_record] =
     Inr (demo_db\<lparr>transactions := [demo_row\<lparr>document_required := True, updated_at := 1000\<rparr>]\<rparr>)
   \<and> excluded (demo_row\<lparr>document_required := True, updated_at := 1000\<rparr>)
   \<and> document_required (demo_row\<lparr>document_required := True, updated_at := 1000\<rparr>)"
  by (simp add: upsert_xero_transactions_def upsert_record_def update_existing_def commit_def
      demo_db_def demo_row_def demo_record_def has_attachments_def str_or_def contact_name_def)

text \<open>
  C3 fails on a record list that names one row twice: the second call sees, at the first
  record, the description that the second record left, and another rule matches first.
\<close>

theorem sync_twice_counterexample:
  "upsert_xero_transactions demo_py 1000 Suc rules_db 1 7 [record_acme, record_other] =
     Inr (rules_db\<lparr>transactions := [after_first]\<rparr>)
   \<and> upsert_xero_transactions demo_py 2000 Suc (rules_db\<lparr>transactions := [after_first]\<rparr>) 1 7
       [record_acme, record_other] =
     Inr (rules_db\<lparr>transactions := [after_second]\<rparr>)
   \<and> exclusion_reason after_first \<noteq> exclusion_reason after_second"
  by (simp add: sync_eval demo_py_def rules_db_def open_row_def demo_row_def demo_record_def
      record_acme_def record_other_def rule_aws_def rule_acme_def after_first_def
      after_second_def)

lemma has_attachments_absent:
  "HasAttachments tx = None \<Longrightarrow>
   upsert_record py rules org client now new_id s tx =
   upsert_record py rules org client now new_id s (tx\<lparr>HasAttachments := Some False\<rparr>)"
  by (simp add: upsert_record_def has_attachments_def insert_new_def update_existing_def
      contact_name_def Let_def split: option.splits)

lemma upsert_loop_absent:
  "HasAttachments tx = None \<Longrightarrow>
   upsert_loop py rules org client now uuid4 k s (pre @ tx # post) =
   upsert_loop py rules org client now uuid4 k s (pre @ tx\<lparr>HasAttachments := Some False\<rparr> # post)"
  by (induction pre arbitrary: s k) (simp_all add: has_attachments_absent)

text \<open>
  C10. A record without the key \<open>HasAttachments\<close> is treated as one with
  \<open>HasAttachments = False\<close>: in any record list the call does the same with both. In a call
  with that record alone that commits, when no enabled rule of the organization matches the
  row, a row inserted for it has \<open>document_required = True\<close> and \<open>document_received = False\<close>,
  and a row updated for it has \<open>document_required = True\<close> and the \<open>document_received\<close> it
  had before.
\<close>

theorem absent_has_attachments:
  assumes "HasAttachments tx = None"
  shows "upsert_xero_transactions py now uuid4 db org client (pre @ tx # post) =
         upsert_xero_transactions py now uuid4 db org client
           (pre @ tx\<lparr>HasAttachments := Some False\<rparr> # post)
       \<and> (\<forall>x db'. BankTransactionID tx = Some x \<and> x \<noteq> [] \<and>
            upsert_xero_transactions py now uuid4 db org client [tx] = Inr db' \<longrightarrow>
            (case query_first (\<lambda>r. organization_id r = org \<and> xero_transaction_id r = x)
                    (transactions db) of
               None \<Rightarrow>
                 (\<exists>t. transactions db' = transactions db @ [t] \<and>
                   ((\<forall>r\<in>set (exclusion_rules db).
                       rule_organization_id r = org \<and> enabled r \<longrightarrow> \<not> rule_hits py t r) \<longrightarrow>
                    document_required t \<and> \<not> document_received t))
             | Some i \<Rightarrow>
                 length (transactions db') = length (transactions db) \<and>
                 ((\<forall>r\<in>set (exclusion_rules db).
                     rule_organization_id r = org \<and> enabled r \<longrightarrow>
                     \<not> rule_hits py (transactions db' ! i) r) \<longrightarrow>
                  document_required (transactions db' ! i) \<and>
                  document_received (transactions db' ! i) =
                  document_received (transactions db ! i))))"
proof (intro conjI allI impI)
  show "upsert_xero_transactions py now uuid4 db org client (pre @ tx # post) =
        upsert_xero_transactions py now uuid4 db org client
          (pre @ tx\<lparr>HasAttachments := Some False\<rparr> # post)"
    by (simp only: upsert_xero_transactions_def upsert_loop_absent [OF assms])
next
  fix x db'
  assume a: "BankTransactionID tx = Some x \<and> x \<noteq> [] \<and>
    upsert_xero_transactions py now uuid4 db org client [tx] = Inr db'"
  let ?rules = "filter (\<lambda>r. rule_organization_id r = org \<and> enabled r) (exclusion_rules db)"
  let ?s0 = "\<lparr>rows = transactions db, added = []\<rparr>"
  let ?P = "\<lambda>r. organization_id r = org \<and> xero_transaction_id r = x"
  from a have h: "has_attachments tx = False" using assms by (simp add: has_attachments_def)
  from upsert_xero_transactions_table [of py now uuid4 db org client "[tx]" db'] a
  have db': "db' = db\<lparr>transactions :=
      rows (upsert_record py ?rules org client now (uuid4 0) ?s0 tx) @
      added (upsert_record py ?rules org client now (uuid4 0) ?s0 tx)\<rparr>"
    by simp
  show "case query_first ?P (transactions db) of
          None \<Rightarrow>
            (\<exists>t. transactions db' = transactions db @ [t] \<and>
              ((\<forall>r\<in>set (exclusion_rules db).
                  rule_organization_id r = org \<and> enabled r \<longrightarrow> \<not> rule_hits py t r) \<longrightarrow>
               document_required t \<and> \<not> document_received t))
        | Some i \<Rightarrow>
            length (transactions db') = length (transactions db) \<and>
            ((\<forall>r\<in>set (exclusion_rules db).
                rule_organization_id r = org \<and> enabled r \<longrightarrow>
                \<not> rule_hits py (transactions db' ! i) r) \<longrightarrow>
             document_required (transactions db' ! i) \<and>
             document_received (transactions db' ! i) = document_received (transactions db ! i))"
  proof (cases "query_first ?P (transactions db)")
    case None
    let ?new = "\<lparr>tx_id = uuid4 0, organization_id = org, client_id = client,
        xero_transaction_id = x, xero_type = Type tx, date = Date tx, amount = Total tx,
        description = str_or (Reference tx) (LineAmountTypes tx),
        supplier_name = contact_name tx, document_required = True,
        document_received = False, document_uploaded_at = None, excluded = False,
        exclusion_reason = None, created_at = now, updated_at = now\<rparr>"
    let ?t = "fst (apply_exclusion_rules py ?new ?rules)"
    have t: "transactions db' = transactions db @ [?t]"
      using a None h by (simp add: db' upsert_record_def insert_new_def)
    have "document_required ?t \<and> \<not> document_received ?t"
      if "\<forall>r\<in>set (exclusion_rules db).
            rule_organization_id r = org \<and> enabled r \<longrightarrow> \<not> rule_hits py ?t r"
    proof -
      from that have "\<forall>r\<in>set ?rules. \<not> rule_hits py ?new r"
        by (simp add: rule_hits_engine)
      then show ?thesis by (simp add: engine_no_hit)
    qed
    with t None show ?thesis by simp
  next
    case (Some i)
    from query_first_SomeD [OF Some] have i: "i < length (transactions db)" by simp
    let ?old = "transactions db ! i"
    let ?upd = "?old\<lparr>xero_type := Type tx, date := Date tx, amount := Total tx,
        description := str_or (Reference tx) (description ?old),
        supplier_name := contact_name tx, document_required := True,
        document_received := document_received ?old, updated_at := now\<rparr>"
    let ?t = "fst (apply_exclusion_rules py ?upd ?rules)"
    have t: "transactions db' = (transactions db) [i := ?t]"
      using a Some h by (simp add: db' upsert_record_def update_existing_def)
    then have ti: "transactions db' ! i = ?t" using i by simp
    have "document_required ?t \<and> document_received ?t = document_received ?old"
      if "\<forall>r\<in>set (exclusion_rules db).
            rule_organization_id r = org \<and> enabled r \<longrightarrow> \<not> rule_hits py ?t r"
    proof -
      from that have "\<forall>r\<in>set ?rules. \<not> rule_hits py ?upd r"
        by (simp add: rule_hits_engine)
      then show ?thesis by (simp add: engine_no_hit)
    qed
    with t ti Some show ?thesis by simp
  qed
qed

theorem absent_has_attachments_witness:
  "HasAttachments record_new = None
   \<and> upsert_xero_transactions demo_py 1000 Suc rules_db 1 7 [record_acme, record_new] =
     upsert_xero_transactions demo_py 1000 Suc rules_db 1 7
       [record_acme, record_new\<lparr>HasAttachments := Some False\<rparr>]
   \<and> upsert_xero_transactions demo_py 1000 Suc rules_db 1 7 [record_new] =
     Inr (rules_db\<lparr>transactions := [open_row, new_row\<lparr>tx_id := 1\<rparr>]\<rparr>)
   \<and> document_required new_row \<and> \<not> document_received new_row
   \<and> upsert_xero_transactions demo_py 1000 Suc demo_db 1 7 [demo_record] =
     Inr (demo_db\<lparr>transactions := [demo_row\<lparr>document_required := True, updated_at := 1000\<rparr>]\<rparr>)
   \<and> document_received demo_row"
  using absent_has_attachments [of record_new demo_py 1000 Suc rules_db 1 7 "[record_acme]" "[]"]
  by (simp add: sync_eval demo_eval)

section \<open>Token cipher\<close>

subsection \<open>UTF-8\<close>

lemma recompose3: "(c::nat) div 4096 * 4096 + c div 64 mod 64 * 64 + c mod 64 = c"
proof -
  define d where "d = c div 64"
  define q where "q = d div 64"
  define r where "r = d mod 64"
  have d: "d = q * 64 + r" by (simp add: q_def r_def)
  have c: "c = d * 64 + c mod 64" by (simp add: d_def)
  have "q * 4096 + r * 64 + c mod 64 = d * 64 + c mod 64" unfolding d by simp
  with c have "q * 4096 + r * 64 + c mod 64 = c" by simp
  moreover have "c div 4096 = c div 64 div 64" using div_mult2_eq [of c 64 64] by simp
  ultimately show ?thesis by (simp only: d_def q_def r_def)
qed

lemma recompose4:
  "(c::nat) div 262144 * 262144 + c div 4096 mod 64 * 4096 + c div 64 mod 64 * 64 + c mod 64 = c"
proof -
  define d where "d = c div 64"
  define q where "q = d div 4096"
  define r where "r = d div 64 mod 64"
  define t where "t = d mod 64"
  have d: "d = q * 4096 + r * 64 + t" using recompose3 [of d] by (simp add: q_def r_def t_def)
  have c: "c = d * 64 + c mod 64" by (simp add: d_def)
  have "q * 262144 + r * 4096 + t * 64 + c mod 64 = d * 64 + c mod 64" unfolding d by simp
  with c have "q * 262144 + r * 4096 + t * 64 + c mod 64 = c" by simp
  moreover have "c div 262144 = c div 64 div 4096" using div_mult2_eq [of c 64 4096] by simp
  moreover have "c div 4096 = c div 64 div 64" using div_mult2_eq [of c 64 64] by simp
  ultimately show ?thesis by (simp only: d_def q_def r_def t_def)
qed

lemma utf8_decode_first_encode:
  assumes "utf8_encode_char c = Some bs"
  shows "utf8_decode_first (bs @ rest) = Some (c, rest)"
proof -
  consider (one) "c < 0x80" | (two) "0x80 \<le> c" "c < 0x800"
    | (three) "0x800 \<le> c" "c < 0x10000" "\<not> (0xD800 \<le> c \<and> c < 0xE000)"
    | (four) "0x10000 \<le> c" "c < 0x110000"
    using assms by (auto simp: utf8_encode_char_def split: if_splits)
  then show ?thesis
  proof cases
    case one
    with assms show ?thesis by (auto simp: utf8_encode_char_def utf8_decode_first_def)
  next
    case two
    define q where "q = c div 64"
    define r where "r = c mod 64"
    from two assms have bs: "bs = [0xC0 + q, 0x80 + r]"
      by (auto simp: utf8_encode_char_def q_def r_def)
    have q: "2 \<le> q" "q < 32" using two by (simp_all add: q_def)
    have r: "r < 64" by (simp add: r_def)
    have c: "q * 64 + r = c" by (simp add: q_def r_def)
    show ?thesis unfolding bs using q r c
      by (simp add: utf8_decode_first_def continuation_def)
  next
    case three
    define q where "q = c div 4096"
    define r where "r = c div 64 mod 64"
    define t where "t = c mod 64"
    from three assms have bs: "bs = [0xE0 + q, 0x80 + r, 0x80 + t]"
      by (auto simp: utf8_encode_char_def q_def r_def t_def)
    have q: "q < 16" using three by (simp add: q_def)
    have r: "r < 64" "t < 64" by (simp_all add: r_def t_def)
    have c: "q * 4096 + r * 64 + t = c" using recompose3 [of c] by (simp add: q_def r_def t_def)
    show ?thesis unfolding bs using q r three
      by (simp add: utf8_decode_first_def continuation_def c)
  next
    case four
    define q where "q = c div 262144"
    define r where "r = c div 4096 mod 64"
    define t where "t = c div 64 mod 64"
    define v where "v = c mod 64"
    from four assms have bs: "bs = [0xF0 + q, 0x80 + r, 0x80 + t, 0x80 + v]"
      by (auto simp: utf8_encode_char_def q_def r_def t_def v_def)
    have q: "q < 5" using four by (simp add: q_def)
    have r: "r < 64" "t < 64" "v < 64" by (simp_all add: r_def t_def v_def)
    have c: "q * 262144 + r * 4096 + t * 64 + v = c"
      using recompose4 [of c] by (simp add: q_def r_def t_def v_def)
    show ?thesis unfolding bs using q r four
      by (simp add: utf8_decode_first_def continuation_def c)
  qed
qed

lemma utf8_encode_char_nonempty: "utf8_encode_char c = Some bs \<Longrightarrow> bs \<noteq> []"
  by (auto simp: utf8_encode_char_def split: if_splits)

lemma utf8_encode_char_bytes: "utf8_encode_char c = Some bs \<Longrightarrow> \<forall>b\<in>set bs. b < 256"
proof -
  assume a: "utf8_encode_char c = Some bs"
  have m: "c mod 64 < 64" "c div 64 mod 64 < 64" "c div 4096 mod 64 < 64" by simp_all
  consider (one) "c < 0x80" | (two) "0x80 \<le> c" "c < 0x800"
    | (three) "0x800 \<le> c" "c < 0x10000" | (four) "0x10000 \<le> c" "c < 0x110000"
    using a by (auto simp: utf8_encode_char_def split: if_splits)
  then show ?thesis
  proof cases
    case one
    with a show ?thesis by (auto simp: utf8_encode_char_def)
  next
    case two
    then have "c div 64 < 32" by simp
    with two a m show ?thesis by (auto simp: utf8_encode_char_def)
  next
    case three
    then have "c div 4096 < 16" by simp
    with three a m show ?thesis by (auto simp: utf8_encode_char_def split: if_splits)
  next
    case four
    then have "c div 262144 < 5" by simp
    with four a m show ?thesis by (auto simp: utf8_encode_char_def)
  qed
qed

lemma utf8_decode_encode_char:
  assumes "utf8_encode_char c = Some bs"
  shows "utf8_decode (bs @ rest) = map_option ((#) c) (utf8_decode rest)"
  using utf8_decode_first_encode [OF assms, of rest] utf8_encode_char_nonempty [OF assms]
  by (subst utf8_decode.simps) simp

lemma utf8_decode_encode: "utf8_encode s = Some bs \<Longrightarrow> utf8_decode bs = Some s"
proof (induction s arbitrary: bs)
  case Nil
  then show ?case by (simp add: utf8_decode.simps)
next
  case (Cons c s)
  then obtain b1 b2 where b: "utf8_encode_char c = Some b1" "utf8_encode s = Some b2"
    "bs = b1 @ b2"
    by (auto split: option.splits)
  from Cons.IH [OF b(2)] utf8_decode_encode_char [OF b(1), of b2] show ?case
    by (simp add: b(3))
qed

lemma utf8_encode_bytes: "utf8_encode s = Some bs \<Longrightarrow> \<forall>b\<in>set bs. b < 256"
proof (induction s arbitrary: bs)
  case Nil
  then show ?case by simp
next
  case (Cons c s)
  then obtain b1 b2 where b: "utf8_encode_char c = Some b1" "utf8_encode s = Some b2"
    "bs = b1 @ b2"
    by (auto split: option.splits)
  from Cons.IH [OF b(2)] utf8_encode_char_bytes [OF b(1)] show ?case by (auto simp: b(3))
qed

lemma utf8_encode_encodable: "encodable s \<Longrightarrow> \<exists>bs. utf8_encode s = Some bs"
  by (induction s) (auto simp: encodable_def utf8_encode_char_def)

lemma utf8_encode_ascii: "\<forall>c\<in>set s. c < 0x80 \<Longrightarrow> utf8_encode s = Some s"
  by (induction s) (auto simp: utf8_encode_char_def)

lemma utf8_decode_ascii: "\<forall>c\<in>set s. c < 0x80 \<Longrightarrow> utf8_decode s = Some s"
proof (induction s)
  case Nil
  then show ?case by (simp add: utf8_decode.simps)
next
  case (Cons c s)
  then show ?case by (subst utf8_decode.simps) (simp add: utf8_decode_first_def)
qed

lemma map_unat_of_nat: "\<forall>b\<in>set bs. b < 256 \<Longrightarrow> map unat (map of_nat bs :: pybytes) = bs"
  by (induction bs) (simp_all add: unat_of_nat)

lemma map_of_nat_unat: "map of_nat (map unat bs) = (bs :: pybytes)"
  by (induction bs) simp_all

lemma str_encode_decode: "str_encode s = Inr data \<Longrightarrow> bytes_decode data = Inr s"
proof -
  assume "str_encode s = Inr data"
  then obtain bs where bs: "utf8_encode s = Some bs" "data = map of_nat bs"
    by (auto simp: str_encode_def split: option.splits)
  from utf8_encode_bytes [OF bs(1)] have "map unat data = bs"
    unfolding bs(2) by (rule map_unat_of_nat)
  with utf8_decode_encode [OF bs(1)] show ?thesis by (simp add: bytes_decode_def)
qed

lemma ascii_token:
  assumes "\<forall>b\<in>set token. b < (0x80 :: 8 word)"
  shows "bytes_decode token = Inr (map unat token)"
    and "str_encode (map unat token) = Inr token"
proof -
  have a: "\<forall>c\<in>set (map unat token). c < 0x80"
    using assms by (auto simp: word_less_nat_alt)
  from utf8_decode_ascii [OF a] show "bytes_decode token = Inr (map unat token)"
    by (simp add: bytes_decode_def)
  from utf8_encode_ascii [OF a] show "str_encode (map unat token) = Inr token"
    by (simp add: str_encode_def map_of_nat_unat del: map_map)
qed

lemma encrypt_then_decrypt:
  assumes "fernet_sound f" and "encodable s"
  shows "encrypt_token f e s = Inr (map unat (fernet_encrypt f e (projr (str_encode s))))
       \<and> decrypt_token f (map unat (fernet_encrypt f e (projr (str_encode s)))) = Inr s"
proof -
  from utf8_encode_encodable [OF assms(2)] obtain data where d: "str_encode s = Inr data"
    by (auto simp: str_encode_def)
  let ?t = "fernet_encrypt f e data"
  from assms(1) have a: "\<forall>b\<in>set ?t. b < 0x80" and r: "fernet_decrypt f ?t = Some data"
    by (simp_all add: fernet_sound_def)
  from ascii_token [OF a] str_encode_decode [OF d] r d show ?thesis
    by (simp add: encrypt_token_def decrypt_token_def)
qed

subsection \<open>The instance for evaluation\<close>

lemma unletters_letters: "unletters (letters bs) = Some bs"
proof (induction bs)
  case Nil
  then show ?case by simp
next
  case (Cons b bs)
  define n where "n = unat b"
  have n: "n < 256" using unsigned_less [of b] by (simp add: n_def)
  then have q: "n div 16 < 16" by simp
  have r: "n mod 16 < 16" by simp
  have hi: "unat (of_nat (97 + n div 16) :: 8 word) = 97 + n div 16"
    unfolding unat_of_nat using q by simp
  have lo: "unat (of_nat (97 + n mod 16) :: 8 word) = 97 + n mod 16"
    unfolding unat_of_nat using r by simp
  have "(of_nat (n div 16 * 16 + n mod 16) :: 8 word) = b" by (simp add: n_def)
  with Cons.IH q show ?case
    unfolding letters.simps unletters.simps n_def [symmetric] hi lo by simp
qed

lemma letters_ascii: "\<forall>b\<in>set (letters bs). b < 0x80"
proof (induction bs)
  case Nil
  then show ?case by simp
next
  case (Cons b bs)
  define n where "n = unat b"
  have n: "n < 256" using unsigned_less [of b] by (simp add: n_def)
  then have q: "n div 16 < 16" by simp
  have r: "n mod 16 < 16" by simp
  have hi: "unat (of_nat (97 + n div 16) :: 8 word) = 97 + n div 16"
    unfolding unat_of_nat using q by simp
  have lo: "unat (of_nat (97 + n mod 16) :: 8 word) = 97 + n mod 16"
    unfolding unat_of_nat using r by simp
  have "(of_nat (97 + n div 16) :: 8 word) < 0x80" "(of_nat (97 + n mod 16) :: 8 word) < 0x80"
    unfolding word_less_nat_alt hi lo using q r by simp_all
  with Cons.IH show ?case
    unfolding letters.simps n_def [symmetric] by simp
qed

lemma fernet_sound_demo: "fernet_sound demo_fernet"
proof -
  have "drop 1 (take 1 (iv e @ [0]) @ data) = data" for e :: fernet_entropy and data :: pybytes
    by (cases "iv e") simp_all
  then show ?thesis
    unfolding fernet_sound_def demo_fernet_def
    by (simp add: unletters_letters letters_ascii del: take_append One_nat_def)
qed

subsection \<open>Round trip\<close>

text \<open>
  A string with a surrogate code point is refused by \<open>encrypt_token\<close>, whatever the
  \<open>Fernet\<close> instance is.
\<close>

lemma encrypt_token_surrogate: "encrypt_token f e [0xD800] = Inl UnicodeEncodeError"
  by (simp add: encrypt_token_def str_encode_def utf8_encode_char_def)

lemma utf8_encode_unencodable: "\<not> encodable s \<Longrightarrow> utf8_encode s = None"
proof (induction s)
  case Nil
  then show ?case by (simp add: encodable_def)
next
  case (Cons c s)
  show ?case
  proof (cases "c < 0x110000 \<and> \<not> (0xD800 \<le> c \<and> c < 0xE000)")
    case True
    with Cons.prems have "\<not> encodable s" by (simp add: encodable_def)
    with Cons.IH show ?thesis by (simp split: option.splits)
  next
    case False
    then have "utf8_encode_char c = None" by (auto simp: utf8_encode_char_def)
    then show ?thesis by simp
  qed
qed

lemma encrypt_token_unencodable:
  "\<not> encodable s \<Longrightarrow> encrypt_token f e s = Inl UnicodeEncodeError"
  by (simp add: encrypt_token_def str_encode_def utf8_encode_unencodable)

text \<open>
  C6, as amended. For every plaintext string \<open>s\<close> that UTF-8 can encode (a string without
  surrogate code points), \<open>encrypt_token s\<close> returns a token and \<open>decrypt_token\<close> of that token
  is \<open>s\<close>, for a \<open>Fernet\<close> instance that decrypts what it encrypts and writes its tokens in
  ASCII. For every other string \<open>encrypt_token\<close> raises \<open>UnicodeEncodeError\<close>.
\<close>

theorem token_round_trip:
  assumes "fernet_sound f"
  shows "if encodable s
         then \<exists>token. encrypt_token f e s = Inr token \<and> decrypt_token f token = Inr s
         else encrypt_token f e s = Inl UnicodeEncodeError"
proof (cases "encodable s")
  case True
  with encrypt_then_decrypt [OF assms True, of e] show ?thesis by auto
next
  case False
  with encrypt_token_unencodable [OF False, of f e] show ?thesis by simp
qed

text \<open>
  C6 fails on the string of the one code point \<open>U+D800\<close>: \<open>token.encode()\<close> raises
  \<open>UnicodeEncodeError\<close>, and nothing is encrypted.
\<close>

theorem token_round_trip_counterexample:
  "encrypt_token demo_fernet \<lparr>current_time = 0, iv = []\<rparr> [0xD800] = Inl UnicodeEncodeError"
  by (simp add: encrypt_token_def str_encode_def utf8_encode_char_def)

lemmas crypto_eval = encrypt_token_def decrypt_token_def str_encode_def bytes_decode_def
  utf8_encode_char_def utf8_decode.simps utf8_decode_first_def continuation_def demo_fernet_def
  unat_of_nat

lemma demo_round_trip:
  "encodable [0x41, 0x20AC]"
  "encrypt_token demo_fernet \<lparr>current_time = 0, iv = []\<rparr> [0x41, 0x20AC] =
     Inr (str ''aaebocickm'')"
  "decrypt_token demo_fernet (str ''aaebocickm'') = Inr [0x41, 0x20AC]"
  "\<not> encodable [0x41, 0xDC00]"
  "encrypt_token demo_fernet \<lparr>current_time = 0, iv = []\<rparr> [0x41, 0xDC00] =
     Inl UnicodeEncodeError"
  by (simp_all add: crypto_eval encodable_def)

theorem token_round_trip_witness:
  "fernet_sound demo_fernet \<and> encodable [0x41, 0x20AC]
   \<and> encrypt_token demo_fernet \<lparr>current_time = 0, iv = []\<rparr> [0x41, 0x20AC] =
       Inr (str ''aaebocickm'')
   \<and> decrypt_token demo_fernet (str ''aaebocickm'') = Inr [0x41, 0x20AC]
   \<and> \<not> encodable [0x41, 0xDC00]
   \<and> encrypt_token demo_fernet \<lparr>current_time = 0, iv = []\<rparr> [0x41, 0xDC00] =
       Inl UnicodeEncodeError"
  using token_round_trip [OF fernet_sound_demo, of "[0x41, 0x20AC]" "\<lparr>current_time = 0, iv = []\<rparr>"]
    token_round_trip [OF fernet_sound_demo, of "[0x41, 0xDC00]" "\<lparr>current_time = 0, iv = []\<rparr>"]
    fernet_sound_demo demo_round_trip
  by simp

section \<open>Token manager\<close>









subsection \<open>A token that is still valid\<close>



subsection \<open>A refresh that the provider refuses\<close>



subsection \<open>A refresh that the provider answers\<close>






end
